theory Spec2Isabelle
  imports Main "HOL-Library.Sublist" "HOL-Library.Char_ord" "HOL-Library.List_Lexorder"
    "HOL-Library.Product_Lexorder"
begin

section \<open>Strings\<close>

text \<open>
  A JavaScript string is modelled as a \<^typ>\<open>string\<close>: a list of code units, each below 256.
  \<open>String.prototype.length\<close> is \<^const>\<open>length\<close>.
\<close>

definition startsWith :: "string \<Rightarrow> string \<Rightarrow> bool" where
  \<comment> \<open>\<open>s.startsWith(p)\<close>\<close>
  "startsWith s p = (take (length p) s = p)"

definition endsWith :: "string \<Rightarrow> string \<Rightarrow> bool" where
  \<comment> \<open>\<open>s.endsWith(p)\<close>\<close>
  "endsWith s p = (length p \<le> length s \<and> drop (length s - length p) s = p)"

fun str_includes :: "string \<Rightarrow> string \<Rightarrow> bool" where
  \<comment> \<open>\<open>s.includes(p)\<close>: \<open>p\<close> occurs somewhere in \<open>s\<close>\<close>
  "str_includes [] p = (p = [])"
| "str_includes (x # xs) p = (startsWith (x # xs) p \<or> str_includes xs p)"

definition set_bit5 :: "char \<Rightarrow> char" where
  \<comment> \<open>the code unit plus 32, for a code unit without bit 5\<close>
  "set_bit5 c = (case c of Char b0 b1 b2 b3 b4 b5 b6 b7 \<Rightarrow> Char b0 b1 b2 b3 b4 True b6 b7)"

definition clear_bit5 :: "char \<Rightarrow> char" where
  \<comment> \<open>the code unit minus 32, for a code unit with bit 5\<close>
  "clear_bit5 c = (case c of Char b0 b1 b2 b3 b4 b5 b6 b7 \<Rightarrow> Char b0 b1 b2 b3 b4 False b6 b7)"

definition toLowerCase_char :: "char \<Rightarrow> char" where
  \<comment> \<open>the lower-case mapping on the code units below 256: A-Z and the capital letters 192-222 (but 215)\<close>
  "toLowerCase_char c =
     (if (CHR ''A'' \<le> c \<and> c \<le> CHR ''Z'') \<or> (CHR 0xC0 \<le> c \<and> c \<le> CHR 0xDE \<and> c \<noteq> CHR 0xD7)
      then set_bit5 c else c)"

definition dq :: string where
  \<comment> \<open>the double quote, as a string\<close>
  "dq = [CHR 0x22]"

definition js_or :: "string \<Rightarrow> string \<Rightarrow> string" where
  \<comment> \<open>\<open>a || b\<close> on strings: the empty string is falsy\<close>
  "js_or a b = (if a = [] then b else a)"

fun split_on :: "char \<Rightarrow> string \<Rightarrow> string list" where
  \<comment> \<open>\<open>s.split(d)\<close> for a separator of one code unit; the result is never empty\<close>
  "split_on d [] = [[]]"
| "split_on d (x # xs) =
     (if x = d then [] # split_on d xs
      else (case split_on d xs of [] \<Rightarrow> [[x]] | seg # segs \<Rightarrow> (x # seg) # segs))"

definition toLowerCase :: "string \<Rightarrow> string" where
  "toLowerCase s = map toLowerCase_char s"

section \<open>Regular expressions of the command blocklist\<close>

text \<open>
  The blocklist is a table of regular expressions, used only through \<open>RegExp.prototype.test\<close>
  (no \<open>g\<close> flag, so without state): does some substring match. The constructs that occur in the
  table are modelled: characters, \<open>.\<close>, \<open>\\s\<close>, character ranges, \<open>\\b\<close>, groups, alternatives,
  \<open>*\<close>, \<open>+\<close> and \<open>?\<close>, and the flag \<open>i\<close>.
\<close>

datatype regex =
    Chr char                        \<comment> \<open>a pattern character\<close>
  | AnyChar                         \<comment> \<open>\<open>.\<close>: any code unit but a line terminator\<close>
  | Space                           \<comment> \<open>\<open>\\s\<close>\<close>
  | Cls "(char \<times> char) list"        \<comment> \<open>\<open>[a-zA-Z]\<close>: a list of ranges\<close>
  | WordB                           \<comment> \<open>\<open>\\b\<close>\<close>
  | Eps                             \<comment> \<open>the empty group \<open>()\<close>\<close>
  | Seq regex regex
  | Alt regex regex
  | Star regex

definition Plus :: "regex \<Rightarrow> regex" where
  "Plus r = Seq r (Star r)"

definition Opt :: "regex \<Rightarrow> regex" where
  "Opt r = Alt r Eps"

definition lit :: "string \<Rightarrow> regex" where
  \<comment> \<open>a run of pattern characters\<close>
  "lit s = foldr (\<lambda>c r. Seq (Chr c) r) s Eps"

definition seqs :: "regex list \<Rightarrow> regex" where
  "seqs rs = foldr Seq rs Eps"

definition alts :: "regex \<Rightarrow> regex list \<Rightarrow> regex" where
  "alts r rs = foldl Alt r rs"

definition canonicalize :: "char \<Rightarrow> char" where
  \<comment> \<open>the case folding of flag \<open>i\<close> (without flag \<open>u\<close>): the upper-case letter, where it is one code
      unit and does not turn a non-ASCII code unit into an ASCII one; below 256 these are a-z and
      the small letters 224-254 (but 247)\<close>
  "canonicalize c =
     (if (CHR ''a'' \<le> c \<and> c \<le> CHR ''z'') \<or> (CHR 0xE0 \<le> c \<and> c \<le> CHR 0xFE \<and> c \<noteq> CHR 0xF7)
      then clear_bit5 c else c)"

definition is_space :: "char \<Rightarrow> bool" where
  \<comment> \<open>\<open>\\s\<close> below 256: tab, line feed, vertical tab, form feed, carriage return, space, no-break space\<close>
  "is_space c = (c \<in> set [CHR 0x09, CHR 0x0A, CHR 0x0B, CHR 0x0C, CHR 0x0D, CHR '' '', CHR 0xA0])"

definition is_line_terminator :: "char \<Rightarrow> bool" where
  "is_line_terminator c = (c = CHR 0x0A \<or> c = CHR 0x0D)"

definition is_word_char :: "char \<Rightarrow> bool" where
  \<comment> \<open>\<open>[A-Za-z0-9_]\<close>\<close>
  "is_word_char c =
     ((CHR ''0'' \<le> c \<and> c \<le> CHR ''9'') \<or> (CHR ''A'' \<le> c \<and> c \<le> CHR ''Z'') \<or> c = CHR ''_''
        \<or> (CHR ''a'' \<le> c \<and> c \<le> CHR ''z''))"

definition in_ranges :: "(char \<times> char) list \<Rightarrow> char \<Rightarrow> bool" where
  "in_ranges rs c = list_ex (\<lambda>(lo, hi). lo \<le> c \<and> c \<le> hi) rs"

definition chr_matches :: "bool \<Rightarrow> char \<Rightarrow> char \<Rightarrow> bool" where
  \<comment> \<open>pattern character \<open>a\<close> against input code unit \<open>x\<close>\<close>
  "chr_matches ci a x = (if ci then canonicalize x = canonicalize a else x = a)"

definition cls_matches :: "bool \<Rightarrow> (char \<times> char) list \<Rightarrow> char \<Rightarrow> bool" where
  \<comment> \<open>under flag \<open>i\<close> a class matches when some member has the same canonical form\<close>
  "cls_matches ci rs x =
     (in_ranges rs x \<or> (ci \<and> (in_ranges rs (canonicalize x) \<or> in_ranges rs (toLowerCase_char x))))"

type_synonym cfg = "char option \<times> string"
  \<comment> \<open>a position of the input: the code unit before it (if any) and the rest of the input\<close>

definition word_boundary :: "cfg \<Rightarrow> bool" where
  "word_boundary c =
     ((case fst c of None \<Rightarrow> False | Some p \<Rightarrow> is_word_char p)
        \<noteq> (case snd c of [] \<Rightarrow> False | x # _ \<Rightarrow> is_word_char x))"

primrec star_iter :: "(cfg \<Rightarrow> cfg list) \<Rightarrow> nat \<Rightarrow> cfg \<Rightarrow> cfg list" where
  \<comment> \<open>the positions after zero or more rounds of \<open>f\<close>, each round consuming input; the bound is the
      length of the rest of the input\<close>
  "star_iter f 0 c = [c]"
| "star_iter f (Suc n) c =
     c # concat (map (star_iter f n) (filter (\<lambda>d. length (snd d) < length (snd c)) (f c)))"

primrec rmatch :: "bool \<Rightarrow> regex \<Rightarrow> cfg \<Rightarrow> cfg list" where
  \<comment> \<open>the positions where a match of the expression that starts at the given position can end\<close>
  "rmatch ci (Chr a) c =
     (case snd c of [] \<Rightarrow> [] | x # xs \<Rightarrow> if chr_matches ci a x then [(Some x, xs)] else [])"
| "rmatch ci AnyChar c =
     (case snd c of [] \<Rightarrow> [] | x # xs \<Rightarrow> if is_line_terminator x then [] else [(Some x, xs)])"
| "rmatch ci Space c =
     (case snd c of [] \<Rightarrow> [] | x # xs \<Rightarrow> if is_space x then [(Some x, xs)] else [])"
| "rmatch ci (Cls rs) c =
     (case snd c of [] \<Rightarrow> [] | x # xs \<Rightarrow> if cls_matches ci rs x then [(Some x, xs)] else [])"
| "rmatch ci WordB c = (if word_boundary c then [c] else [])"
| "rmatch ci Eps c = [c]"
| "rmatch ci (Seq r s) c = concat (map (rmatch ci s) (rmatch ci r c))"
| "rmatch ci (Alt r s) c = rmatch ci r c @ rmatch ci s c"
| "rmatch ci (Star r) c = star_iter (rmatch ci r) (length (snd c)) c"

fun search :: "bool \<Rightarrow> regex \<Rightarrow> char option \<Rightarrow> string \<Rightarrow> bool" where
  \<comment> \<open>a match starts at this position or at a later one\<close>
  "search ci r p [] = (rmatch ci r (p, []) \<noteq> [])"
| "search ci r p (x # xs) = (rmatch ci r (p, x # xs) \<noteq> [] \<or> search ci r (Some x) xs)"

definition regex_test :: "bool \<times> regex \<Rightarrow> string \<Rightarrow> bool" where
  \<comment> \<open>\<open>pattern.test(s)\<close>; the first component is the flag \<open>i\<close>\<close>
  "regex_test p s = search (fst p) (snd p) None s"

definition sp1 :: regex where
  \<comment> \<open>\<open>\\s+\<close>\<close>
  "sp1 = Plus Space"

definition letters :: regex where
  \<comment> \<open>\<open>[a-zA-Z]*\<close>\<close>
  "letters = Star (Cls [(CHR ''a'', CHR ''z''), (CHR ''A'', CHR ''Z'')])"

definition any_run :: regex where
  \<comment> \<open>\<open>.*\<close>\<close>
  "any_run = Star AnyChar"

definition shells :: regex where
  \<comment> \<open>\<open>(bash|sh|zsh)\<close>\<close>
  "shells = alts (lit ''bash'') [lit ''sh'', lit ''zsh'']"

definition BLOCKED_COMMANDS :: "(bool \<times> regex) list" where
  "BLOCKED_COMMANDS =
    [(True, seqs [lit ''rm'', sp1,
                  alts (seqs [lit ''-'', letters, lit ''f''])
                       [seqs [lit ''-'', letters, lit ''r''], lit ''--force'', lit ''--recursive''],
                  any_run, lit ''/'']),
     (True, seqs [lit ''rm'', sp1, lit ''-rf'', Space]),
     (True, lit ''mkfs''),
     (True, seqs [lit ''dd'', sp1, lit ''if='']),
     (True, seqs [lit ''chmod'', sp1, Opt (seqs [lit ''-R'', sp1]), lit ''777'', sp1, lit ''/'']),
     (True, seqs [lit ''chown'', sp1, lit ''-R'', sp1, any_run, sp1, lit ''/'']),
     (True, seqs [lit ''>'', Star Space, lit ''/dev/sd'']),
     (False, seqs [lit '':'', Eps, lit ''{ :|:& };:'']),
     (True, lit ''shutdown''),
     (True, lit ''reboot''),
     (True, seqs [lit ''init'', sp1, Cls [(CHR ''0'', CHR ''0''), (CHR ''6'', CHR ''6'')]]),
     (True, seqs [lit ''systemctl'', sp1, alts (lit ''poweroff'') [lit ''halt'', lit ''reboot'']]),
     (True, lit ''wipefs''),
     (True, lit ''fdisk''),
     (True, lit ''parted''),
     (True, seqs [WordB, lit ''format'', WordB, any_run, lit ''/'', alts (lit ''dev'') [lit ''disk'']]),
     (True, seqs [lit ''curl'', any_run, lit ''|'', Star Space, shells]),
     (True, seqs [lit ''wget'', any_run, lit ''|'', Star Space, shells]),
     (True, seqs [lit ''python'', any_run, lit ''-c'', any_run, lit ''import'', sp1, lit ''os'', any_run,
                  lit ''system'']),
     (True, seqs [lit ''iptables'', sp1, lit ''-F'']),
     (True, seqs [lit ''ufw'', sp1, lit ''disable'']),
     (True, seqs [lit ''passwd'', sp1, lit ''root'']),
     (True, lit ''userdel''),
     (True, lit ''groupdel''),
     (True, seqs [lit ''mv'', sp1, lit ''/etc'']),
     (True, seqs [lit ''rm'', sp1, lit ''/etc'']),
     (True, seqs [lit ''truncate'', any_run, lit ''/etc'']),
     (True, seqs [lit ''echo'', sp1, any_run, lit ''>'', Star Space, lit ''/etc/'',
                  alts (lit ''passwd'') [lit ''shadow'', lit ''sudoers'', lit ''fstab'']])]"

section \<open>PolicyGuard\<close>

definition isCommandBlocked :: "string \<Rightarrow> bool" where
  \<comment> \<open>\<open>BLOCKED_COMMANDS.some(pattern => pattern.test(cmd))\<close>\<close>
  "isCommandBlocked cmd = list_ex (\<lambda>pattern. regex_test pattern cmd) BLOCKED_COMMANDS"

definition isPathReadable :: "string list \<Rightarrow> string \<Rightarrow> bool" where
  \<comment> \<open>\<open>SAFE_READ_PATHS.some(p => filepath.startsWith(p))\<close>; the live list is the first argument\<close>
  "isPathReadable SAFE_READ_PATHS filepath = list_ex (\<lambda>p. startsWith filepath p) SAFE_READ_PATHS"

definition isPathWritable :: "string list \<Rightarrow> string \<Rightarrow> bool" where
  \<comment> \<open>\<open>SAFE_WRITE_PATHS.some(p => filepath.startsWith(p))\<close>\<close>
  "isPathWritable SAFE_WRITE_PATHS filepath = list_ex (\<lambda>p. startsWith filepath p) SAFE_WRITE_PATHS"

section \<open>Dates and action identifiers\<close>

definition digit :: "nat \<Rightarrow> char" where
  "digit n = ''0123456789'' ! (n mod 10)"

fun pad :: "nat \<Rightarrow> nat \<Rightarrow> string" where
  \<comment> \<open>the last \<open>k\<close> decimal digits of \<open>n\<close>, with leading zeros\<close>
  "pad 0 n = []"
| "pad (Suc k) n = pad k (n div 10) @ [digit n]"

fun show_nat :: "nat \<Rightarrow> string" where
  \<comment> \<open>the decimal numeral of a number\<close>
  "show_nat n = (if n < 10 then [digit n] else show_nat (n div 10) @ [digit n])"

record timestamp =
  \<comment> \<open>a \<open>Date\<close>, by its UTC fields\<close>
  year :: nat
  month :: nat
  day :: nat
  hour :: nat
  minute :: nat
  second :: nat
  millis :: nat

declare show_nat.simps [simp del]

definition toISOString :: "timestamp \<Rightarrow> string" where
  \<comment> \<open>\<open>YYYY-MM-DDTHH:mm:ss.sssZ\<close>; a year after 9999 is written with a sign and six digits\<close>
  "toISOString t =
     (if year t \<le> 9999 then pad 4 (year t) else ''+'' @ pad 6 (year t))
       @ ''-'' @ pad 2 (month t) @ ''-'' @ pad 2 (day t)
       @ ''T'' @ pad 2 (hour t) @ '':'' @ pad 2 (minute t) @ '':'' @ pad 2 (second t)
       @ ''.'' @ pad 3 (millis t) @ ''Z''"

definition replace_all :: "(char \<Rightarrow> bool) \<Rightarrow> string \<Rightarrow> string \<Rightarrow> string" where
  \<comment> \<open>\<open>s.replace(/[...]/g, by)\<close>: every code unit of the class is replaced\<close>
  "replace_all cls by s = concat (map (\<lambda>c. if cls c then by else [c]) s)"

definition generateActionId :: "nat \<Rightarrow> string \<Rightarrow> string" where
  \<comment> \<open>\<open>'act_' + Date.now() + '_' + Math.random().toString(36).slice(2, 8)\<close>, from the clock
      reading in milliseconds and the random digits\<close>
  "generateActionId now_ms rnd = ''act_'' @ show_nat now_ms @ ''_'' @ rnd"

section \<open>Values of a request body\<close>

text \<open>
  The body of a request is parsed JSON: a field holds a string, a number, a boolean, \<open>null\<close>, an
  array or an object, or is absent (\<open>undefined\<close>). Numbers are the integers that print in
  decimal notation.
\<close>

datatype jsval =
    JUndefined
  | JNull
  | JBool bool
  | JNum int
  | JStr string
  | JArr "jsval list"
  | JObj "(string \<times> jsval) list"

definition truthy :: "jsval \<Rightarrow> bool" where
  \<comment> \<open>\<open>ToBoolean\<close>\<close>
  "truthy v =
     (case v of
        JUndefined \<Rightarrow> False
      | JNull \<Rightarrow> False
      | JBool b \<Rightarrow> b
      | JNum n \<Rightarrow> n \<noteq> 0
      | JStr s \<Rightarrow> s \<noteq> []
      | JArr xs \<Rightarrow> True
      | JObj kvs \<Rightarrow> True)"

definition show_int :: "int \<Rightarrow> string" where
  "show_int n = (if n < 0 then ''-'' @ show_nat (nat (- n)) else show_nat (nat n))"

fun join_comma :: "string list \<Rightarrow> string" where
  "join_comma [] = []"
| "join_comma [x] = x"
| "join_comma (x # y # ys) = x @ '','' @ join_comma (y # ys)"

fun ToString :: "jsval \<Rightarrow> string" where
  \<comment> \<open>the string a template literal or \<open>RegExp.prototype.test\<close> makes of a value; an array is
      joined with commas, its \<open>null\<close> elements as empty strings\<close>
  "ToString JUndefined = ''undefined''"
| "ToString JNull = ''null''"
| "ToString (JBool b) = (if b then ''true'' else ''false'')"
| "ToString (JNum n) = show_int n"
| "ToString (JStr s) = s"
| "ToString (JArr xs) =
     join_comma (map (\<lambda>x. if x = JNull \<or> x = JUndefined then [] else ToString x) xs)"
| "ToString (JObj kvs) = ''[object Object]''"

fun stringifiable :: "jsval \<Rightarrow> bool" where
  \<comment> \<open>\<open>ToString\<close> of an object calls its \<open>toString\<close>: an object with a key \<open>toString\<close> of its
      own, whose value is no function, makes it throw, also from inside an array\<close>
  "stringifiable (JObj kvs) = (''toString'' \<notin> set (map fst kvs))"
| "stringifiable (JArr xs) = list_all stringifiable xs"
| "stringifiable v = True"

definition sq :: string where
  \<comment> \<open>the single quote\<close>
  "sq = [CHR 0x27]"

definition method_error :: "string \<Rightarrow> string \<Rightarrow> jsval \<Rightarrow> string" where
  \<comment> \<open>the message of the \<open>TypeError\<close> of \<open>name.method(...)\<close> when the value \<open>v\<close> of \<open>name\<close> has no
      such method\<close>
  "method_error name method v =
     (case v of
        JUndefined \<Rightarrow> ''Cannot read properties of undefined (reading '' @ sq @ method @ sq @ '')''
      | JNull \<Rightarrow> ''Cannot read properties of null (reading '' @ sq @ method @ sq @ '')''
      | _ \<Rightarrow> name @ ''.'' @ method @ '' is not a function'')"

section \<open>The host: filesystem, processes, clock\<close>

datatype node = File string | Dir

datatype call =
    ExistsSync string
  | ReadFileSync string
  | MkdirSync string
  | CopyFileSync string string
  | WriteFileSync string "string option"
  | ExecSync string nat nat "string option"
      \<comment> \<open>\<open>execSync\<close>: command, timeout in ms, maxBuffer in bytes, working directory\<close>
  | Exec string nat
      \<comment> \<open>\<open>exec\<close>, the asynchronous spawn: command, maxBuffer in bytes\<close>

type_synonym effect = "call \<times> string option"
  \<comment> \<open>a call that was made, and the message of the error it threw, if it threw\<close>

datatype cause = NonZeroExit | Timeout | MaxBufferExceeded | SpawnFailure

datatype exec_result =
    Returned string
      \<comment> \<open>exit code 0: the standard output\<close>
  | Threw cause string string string
      \<comment> \<open>\<open>execSync\<close> throws: the error's \<open>stderr\<close>, \<open>stdout\<close> (what was captured) and \<open>message\<close>\<close>

record host =
  \<comment> \<open>what the gateway is given by its process and by the machine during one request\<close>
  cwd :: string
  BACKUP_DIR :: string
  path_join :: "string \<Rightarrow> string \<Rightarrow> string"
  path_dirname :: "string \<Rightarrow> string"
  now :: timestamp
  now_ms :: nat
  random_digits :: string
  io_fault :: "call \<Rightarrow> string option"
    \<comment> \<open>a call that the machine makes fail (a filesystem call, or the spawn of \<open>exec\<close>), with the
        error's message\<close>
  execSync_result :: "string \<Rightarrow> nat \<Rightarrow> nat \<Rightarrow> string option \<Rightarrow> exec_result"

record pending_action =
  ptype :: string
  ptarget :: jsval
  startedAt :: string

record world =
  fs :: "string \<rightharpoonup> node"
  SAFE_READ_PATHS :: "string list"
  SAFE_WRITE_PATHS :: "string list"
  pendingActions :: "(string \<times> pending_action) list"
  effects :: "effect list"
    \<comment> \<open>the filesystem and process calls made so far, oldest first\<close>

definition log :: "call \<Rightarrow> string option \<Rightarrow> world \<Rightarrow> world" where
  "log c err w = w\<lparr>effects := effects w @ [(c, err)]\<rparr>"

definition map_set :: "('k \<times> 'v) list \<Rightarrow> 'k \<Rightarrow> 'v \<Rightarrow> ('k \<times> 'v) list" where
  \<comment> \<open>\<open>Map.prototype.set\<close>, and the write of a whole file into a listing: a known key keeps its place\<close>
  "map_set m k v = (if k \<in> set (map fst m) then map (\<lambda>(k', v'). if k' = k then (k', v) else (k', v')) m
                    else m @ [(k, v)])"

definition thrown :: "(string + 'a) \<Rightarrow> string option" where
  "thrown res = (case res of Inl e \<Rightarrow> Some e | Inr v \<Rightarrow> None)"

definition existsSync :: "string \<Rightarrow> world \<Rightarrow> bool \<times> world" where
  \<comment> \<open>never throws\<close>
  "existsSync p w = (fs w p \<noteq> None, log (ExistsSync p) None w)"

definition readFileSync :: "host \<Rightarrow> string \<Rightarrow> world \<Rightarrow> (string + string) \<times> world" where
  "readFileSync h p w =
     (let res = (case io_fault h (ReadFileSync p) of
                   Some e \<Rightarrow> Inl e
                 | None \<Rightarrow>
                     (case fs w p of
                        Some (File d) \<Rightarrow> Inr d
                      | Some Dir \<Rightarrow> Inl ''EISDIR: illegal operation on a directory, read''
                      | None \<Rightarrow> Inl ''ENOENT: no such file or directory, open''))
      in (res, log (ReadFileSync p) (thrown res) w))"

definition mkdirSync :: "host \<Rightarrow> string \<Rightarrow> world \<Rightarrow> (string + unit) \<times> world" where
  \<comment> \<open>\<open>mkdirSync(p, {recursive: true})\<close>\<close>
  "mkdirSync h p w =
     (case io_fault h (MkdirSync p) of
        Some e \<Rightarrow> (Inl e, log (MkdirSync p) (Some e) w)
      | None \<Rightarrow>
          (case fs w p of
             Some (File d) \<Rightarrow>
               (Inl ''EEXIST: file already exists, mkdir'',
                log (MkdirSync p) (Some ''EEXIST: file already exists, mkdir'') w)
           | _ \<Rightarrow> (Inr (), log (MkdirSync p) None (w\<lparr>fs := (fs w)(p \<mapsto> Dir)\<rparr>))))"

definition copyFileSync :: "host \<Rightarrow> string \<Rightarrow> string \<Rightarrow> world \<Rightarrow> (string + unit) \<times> world" where
  "copyFileSync h src dst w =
     (case io_fault h (CopyFileSync src dst) of
        Some e \<Rightarrow> (Inl e, log (CopyFileSync src dst) (Some e) w)
      | None \<Rightarrow>
          (case fs w src of
             Some (File d) \<Rightarrow> (Inr (), log (CopyFileSync src dst) None (w\<lparr>fs := (fs w)(dst \<mapsto> File d)\<rparr>))
           | Some Dir \<Rightarrow>
               (Inl ''EISDIR: illegal operation on a directory, copyfile'',
                log (CopyFileSync src dst) (Some ''EISDIR: illegal operation on a directory, copyfile'') w)
           | None \<Rightarrow>
               (Inl ''ENOENT: no such file or directory, copyfile'',
                log (CopyFileSync src dst) (Some ''ENOENT: no such file or directory, copyfile'') w)))"

definition data_type_error :: string where
  "data_type_error =
     ''The '' @ dq @ ''data'' @ dq
       @ '' argument must be of type string or an instance of Buffer, TypedArray, or DataView. Received undefined''"

definition writeFileSync :: "host \<Rightarrow> string \<Rightarrow> string option \<Rightarrow> world \<Rightarrow> (string + unit) \<times> world" where
  \<comment> \<open>\<open>writeFileSync(p, data, 'utf-8')\<close>; \<open>data\<close> is \<open>None\<close> when the request has no content. A write
      that fails leaves the file as it was.\<close>
  "writeFileSync h p data w =
     (case data of
        None \<Rightarrow> (Inl data_type_error, log (WriteFileSync p data) (Some data_type_error) w)
      | Some d \<Rightarrow>
          (case io_fault h (WriteFileSync p data) of
             Some e \<Rightarrow> (Inl e, log (WriteFileSync p data) (Some e) w)
           | None \<Rightarrow>
               (case fs w p of
                  Some Dir \<Rightarrow>
                    (Inl ''EISDIR: illegal operation on a directory, open'',
                     log (WriteFileSync p data) (Some ''EISDIR: illegal operation on a directory, open'') w)
                | _ \<Rightarrow> (Inr (), log (WriteFileSync p data) None (w\<lparr>fs := (fs w)(p \<mapsto> File d)\<rparr>)))))"

definition execSync :: "host \<Rightarrow> string \<Rightarrow> nat \<Rightarrow> nat \<Rightarrow> string option \<Rightarrow> world \<Rightarrow> exec_result \<times> world" where
  \<comment> \<open>the child's own effects on the filesystem are not part of the model\<close>
  "execSync h cmd timeout maxBuffer dir w =
     (let res = execSync_result h cmd timeout maxBuffer dir
      in (res, log (ExecSync cmd timeout maxBuffer dir)
                 (case res of Returned out \<Rightarrow> None | Threw c err out msg \<Rightarrow> Some msg) w))"

section \<open>BackupManager\<close>

definition backup_timestamp :: "timestamp \<Rightarrow> string" where
  \<comment> \<open>\<open>new Date().toISOString().replace(/[:.]/g, '-')\<close>\<close>
  "backup_timestamp t = replace_all (\<lambda>c. c = CHR '':'' \<or> c = CHR ''.'') ''-'' (toISOString t)"

definition backupName :: "string \<Rightarrow> timestamp \<Rightarrow> string" where
  \<comment> \<open>\<open>filepath.replace(/\\//g, '__') + `.${timestamp}.bak`\<close>\<close>
  "backupName filepath t =
     replace_all (\<lambda>c. c = CHR ''/'') ''__'' filepath @ ''.'' @ backup_timestamp t @ ''.bak''"

definition valid_timestamp :: "timestamp \<Rightarrow> bool" where
  \<comment> \<open>the fields of a date with a year of four digits\<close>
  "valid_timestamp t =
     (year t \<le> 9999 \<and> 1 \<le> month t \<and> month t \<le> 12 \<and> 1 \<le> day t \<and> day t \<le> 31
        \<and> hour t \<le> 23 \<and> minute t \<le> 59 \<and> second t \<le> 59 \<and> millis t \<le> 999)"

definition earlier :: "timestamp \<Rightarrow> timestamp \<Rightarrow> bool" where
  \<comment> \<open>the first date is before the second\<close>
  "earlier a b =
     ((year a, month a, day a, hour a, minute a, second a, millis a)
        < (year b, month b, day b, hour b, minute b, second b, millis b))"

definition ensure_dir :: "host \<Rightarrow> string \<Rightarrow> world \<Rightarrow> (string + unit) \<times> world" where
  \<comment> \<open>\<open>if (!existsSync(dir)) mkdirSync(dir, { recursive: true })\<close>\<close>
  "ensure_dir h dir w =
     (case existsSync dir w of
        (True, w1) \<Rightarrow> (Inr (), w1)
      | (False, w1) \<Rightarrow> mkdirSync h dir w1)"

definition backupFile :: "host \<Rightarrow> string \<Rightarrow> world \<Rightarrow> (string + string option) \<times> world" where
  \<comment> \<open>\<open>Inr None\<close> is \<open>null\<close>, \<open>Inr (Some backupPath)\<close> the returned path, \<open>Inl\<close> a thrown error\<close>
  "backupFile h filepath w =
     (case existsSync filepath w of
        (False, w1) \<Rightarrow> (Inr None, w1)
      | (True, w1) \<Rightarrow>
          (case ensure_dir h (BACKUP_DIR h) w1 of
             (Inl e, w2) \<Rightarrow> (Inl e, w2)
           | (Inr u, w2) \<Rightarrow>
               (let backupPath = path_join h (BACKUP_DIR h) (backupName filepath (now h))
                in case copyFileSync h filepath backupPath w2 of
                     (Inl e, w3) \<Rightarrow> (Inl e, w3)
                   | (Inr u', w3) \<Rightarrow> (Inr (Some backupPath), w3))))"

section \<open>ActionDispatcher: the handler of \<open>POST /api/execute\<close>\<close>

record request =
  \<comment> \<open>a request body \<open>{type, target, content}\<close> whose target is a string; \<open>content\<close> may be absent\<close>
  rtype :: string
  target :: string
  content :: "string option"

datatype response =
    Result bool string
      \<comment> \<open>\<open>{success, result}\<close>\<close>
  | Running string string
      \<comment> \<open>\<open>{success: true, status: 'running', actionId, message}\<close>\<close>

definition resolve_target :: "host \<Rightarrow> request \<Rightarrow> string" where
  \<comment> \<open>relative paths become absolute, for the file-based actions only; here the target is a
      string (for every other value see \<open>post_execute\<close>), and the empty string is falsy\<close>
  "resolve_target h r =
     (if rtype r \<noteq> ''RUN_CMD'' \<and> target r \<noteq> [] \<and> \<not> startsWith (target r) ''/''
      then path_join h (cwd h) (target r) else target r)"

definition read_file :: "host \<Rightarrow> string \<Rightarrow> world \<Rightarrow> (string + response) \<times> world" where
  \<comment> \<open>\<open>case 'READ_FILE'\<close>\<close>
  "read_file h tgt w =
     (if \<not> isPathReadable (SAFE_READ_PATHS w) tgt
      then (Inr (Result False (''Access denied: '' @ dq @ tgt @ dq @ '' is outside allowed read paths.'')), w)
      else (case existsSync tgt w of
              (False, w1) \<Rightarrow> (Inr (Result False (''File not found: '' @ tgt)), w1)
            | (True, w1) \<Rightarrow>
                (case readFileSync h tgt w1 of
                   (Inl e, w2) \<Rightarrow> (Inl e, w2)
                 | (Inr data, w2) \<Rightarrow> (Inr (Result True data), w2))))"

definition isAsyncCommand :: "string \<Rightarrow> bool" where
  "isAsyncCommand tgt =
     (str_includes tgt ''openclaw agent'' \<or> str_includes tgt ''openclaw --message''
        \<or> str_includes tgt ''openclaw --to'' \<or> length tgt > 200)"

definition exec_outcome :: "exec_result \<Rightarrow> response" where
  \<comment> \<open>what both synchronous branches answer after \<open>execSync\<close>: \<open>output || '(no output)'\<close>, or in the
      \<open>catch\<close> \<open>execErr.stderr || execErr.stdout || execErr.message\<close>\<close>
  "exec_outcome res =
     (case res of
        Returned output \<Rightarrow> Result True (js_or output ''(no output)'')
      | Threw c err out msg \<Rightarrow> Result False (js_or err (js_or out msg)))"

definition run_cmd :: "host \<Rightarrow> string \<Rightarrow> world \<Rightarrow> (string + response) \<times> world" where
  \<comment> \<open>\<open>case 'RUN_CMD'\<close>. \<open>execSync\<close> is inside a \<open>try\<close> of its own. \<open>exec\<close> is not: when it throws
      at once (a command with a NUL byte, a command too long for the system: \<open>E2BIG\<close>) the error
      leaves the \<open>switch\<close>, after the id was registered\<close>
  "run_cmd h tgt w =
     (if isCommandBlocked tgt
      then (Inr (Result False (''Blocked: '' @ dq @ tgt @ dq
                    @ '' matches a dangerous command pattern. MiddleClaw refuses to run it.'')), w)
      else if \<not> isAsyncCommand tgt
      then (case execSync h tgt 30000 (1024 * 1024) None w of
              (res, w1) \<Rightarrow> (Inr (exec_outcome res), w1))
      else (let actionId = generateActionId (now_ms h) (random_digits h);
                w1 = w\<lparr>pendingActions :=
                        map_set (pendingActions w) actionId
                          \<lparr>ptype = ''RUN_CMD'', ptarget = JStr tgt, startedAt = toISOString (now h)\<rparr>\<rparr>
            in case io_fault h (Exec tgt (1024 * 1024 * 2)) of
                 Some e \<Rightarrow> (Inl e, log (Exec tgt (1024 * 1024 * 2)) (Some e) w1)
               | None \<Rightarrow>
                   (Inr (Running actionId ''Command started. Result will be delivered when complete.''),
                    log (Exec tgt (1024 * 1024 * 2)) None w1)))"

definition script_shell :: "string \<Rightarrow> string" where
  \<comment> \<open>the interpreter line, from \<open>target.split('.').pop().toLowerCase()\<close>\<close>
  "script_shell tgt =
     (let ext = toLowerCase (last (split_on (CHR ''.'') tgt))
      in if ext \<in> set [''bat'', ''cmd'', ''ps1'']
         then (if ext = ''ps1'' then ''powershell -ExecutionPolicy Bypass -File '' @ dq @ tgt @ dq
               else ''cmd /c '' @ dq @ tgt @ dq)
         else ''bash '' @ dq @ tgt @ dq)"

definition script_fullCmd :: "string \<Rightarrow> string option \<Rightarrow> string" where
  \<comment> \<open>\<open>content ? `${shell} ${content}` : shell\<close>: an absent or empty content is falsy\<close>
  "script_fullCmd tgt cnt =
     (case cnt of
        None \<Rightarrow> script_shell tgt
      | Some c \<Rightarrow> if c = [] then script_shell tgt else script_shell tgt @ '' '' @ c)"

definition run_script :: "host \<Rightarrow> string \<Rightarrow> string option \<Rightarrow> world \<Rightarrow> (string + response) \<times> world" where
  \<comment> \<open>\<open>case 'RUN_SCRIPT'\<close>\<close>
  "run_script h tgt cnt w =
     (if \<not> isPathReadable (SAFE_READ_PATHS w) tgt
      then (Inr (Result False (''Access denied: '' @ dq @ tgt @ dq @ '' is outside allowed read paths.'')), w)
      else (case existsSync tgt w of
              (False, w1) \<Rightarrow> (Inr (Result False (''Script not found: '' @ tgt)), w1)
            | (True, w1) \<Rightarrow>
                (let fullCmd = script_fullCmd tgt cnt
                 in if isCommandBlocked fullCmd
                    then (Inr (Result False ''Blocked: script execution matches a dangerous command pattern.''), w1)
                    else (case execSync h fullCmd 120000 (1024 * 1024 * 2) (Some (path_dirname h tgt)) w1 of
                            (res, w2) \<Rightarrow> (Inr (exec_outcome res), w2)))))"

definition write_file :: "host \<Rightarrow> string \<Rightarrow> string option \<Rightarrow> world \<Rightarrow> (string + response) \<times> world" where
  \<comment> \<open>\<open>case 'WRITE_FILE'\<close>\<close>
  "write_file h tgt cnt w =
     (if \<not> isPathWritable (SAFE_WRITE_PATHS w) tgt
      then (Inr (Result False (''Access denied: '' @ dq @ tgt @ dq @ '' is outside allowed write paths.'')), w)
      else (case ensure_dir h (path_dirname h tgt) w of
              (Inl e, w2) \<Rightarrow> (Inl e, w2)
            | (Inr u, w2) \<Rightarrow>
                (case backupFile h tgt w2 of
                   (Inl e, w3) \<Rightarrow> (Inl e, w3)
                 | (Inr backup, w3) \<Rightarrow>
                     (case writeFileSync h tgt cnt w3 of
                        (Inl e, w4) \<Rightarrow> (Inl e, w4)
                      | (Inr u', w4) \<Rightarrow>
                          (Inr (Result True
                                  (case backup of
                                     Some b \<Rightarrow> ''File written. Backup saved to: '' @ b
                                   | None \<Rightarrow> ''File created at: '' @ tgt)), w4)))))"

definition execute_try :: "host \<Rightarrow> request \<Rightarrow> world \<Rightarrow> (string + response) \<times> world" where
  \<comment> \<open>the body of the \<open>try\<close>: \<open>Inl\<close> is an error thrown out of the \<open>switch\<close>\<close>
  "execute_try h r w =
     (let tgt = resolve_target h r
      in if rtype r = ''READ_FILE'' then read_file h tgt w
         else if rtype r = ''RUN_CMD'' then run_cmd h tgt w
         else if rtype r = ''RUN_SCRIPT'' then run_script h tgt (content r) w
         else if rtype r = ''WRITE_FILE'' then write_file h tgt (content r) w
         else (Inr (Result False (''Unknown action type: '' @ rtype r)), w))"

definition execute :: "host \<Rightarrow> request \<Rightarrow> world \<Rightarrow> response \<times> world" where
  \<comment> \<open>the handler: the \<open>catch\<close> answers \<open>{success: false, result: `Error: ${err.message}`}\<close>\<close>
  "execute h r w =
     (case execute_try h r w of
        (Inl e, w') \<Rightarrow> (Result False (''Error: '' @ e), w')
      | (Inr resp, w') \<Rightarrow> (resp, w'))"

record body =
  \<comment> \<open>the request body as it arrives: \<open>target\<close> holds any value; \<open>type\<close> is a string and
      \<open>content\<close> a string or absent\<close>
  b_type :: string
  b_target :: jsval
  b_content :: "string option"

datatype outcome =
    Responded response
      \<comment> \<open>the handler answered with \<open>res.json\<close>\<close>
  | Unhandled string
      \<comment> \<open>an error left the handler: the framework answers with status 500 and an HTML page\<close>

definition command_type_error :: string where
  \<comment> \<open>\<open>execSync\<close> and \<open>exec\<close> validate the command before anything is run\<close>
  "command_type_error =
     ''The '' @ dq @ ''command'' @ dq @ '' argument must be of type string. Received an instance of Array''"

definition execute_try_value :: "host \<Rightarrow> string \<Rightarrow> jsval \<Rightarrow> world \<Rightarrow> (string + response) \<times> world" where
  \<comment> \<open>the body of the \<open>try\<close> for a target \<open>v\<close> that is no string. \<open>PATHS.some(p => v.startsWith(p))\<close>
      is \<open>false\<close> for an empty list and throws at the first prefix otherwise; the blocklist is
      tested on \<open>ToString v\<close>, which may throw; only an array has \<open>includes\<close> and \<open>length\<close>, and
      \<open>includes\<close> then looks for an element\<close>
  "execute_try_value h ty v w =
     (if ty = ''READ_FILE'' \<or> ty = ''RUN_SCRIPT''
      then (if SAFE_READ_PATHS w = []
            then (Inr (Result False (''Access denied: '' @ dq @ ToString v @ dq
                          @ '' is outside allowed read paths.'')), w)
            else (Inl (method_error ''filepath'' ''startsWith'' v), w))
      else if ty = ''WRITE_FILE''
      then (if SAFE_WRITE_PATHS w = []
            then (Inr (Result False (''Access denied: '' @ dq @ ToString v @ dq
                          @ '' is outside allowed write paths.'')), w)
            else (Inl (method_error ''filepath'' ''startsWith'' v), w))
      else if ty = ''RUN_CMD''
      then (if \<not> stringifiable v
            then (Inl ''Cannot convert object to primitive value'', w)
            else if isCommandBlocked (ToString v)
            then (Inr (Result False (''Blocked: '' @ dq @ ToString v @ dq
                          @ '' matches a dangerous command pattern. MiddleClaw refuses to run it.'')), w)
            else (case v of
                    JArr xs \<Rightarrow>
                      if \<not> (JStr ''openclaw agent'' \<in> set xs \<or> JStr ''openclaw --message'' \<in> set xs
                              \<or> JStr ''openclaw --to'' \<in> set xs \<or> length xs > 200)
                      then (Inr (Result False command_type_error), w)
                      else (Inl command_type_error,
                            w\<lparr>pendingActions :=
                                map_set (pendingActions w) (generateActionId (now_ms h) (random_digits h))
                                  \<lparr>ptype = ''RUN_CMD'', ptarget = v, startedAt = toISOString (now h)\<rparr>\<rparr>)
                  | _ \<Rightarrow> (Inl (method_error ''target'' ''includes'' v), w)))
      else (Inr (Result False (''Unknown action type: '' @ ty)), w))"

definition post_execute :: "host \<Rightarrow> body \<Rightarrow> world \<Rightarrow> outcome \<times> world" where
  \<comment> \<open>\<open>app.post('/api/execute', ...)\<close>. The test \<open>target && !target.startsWith('/')\<close> of the
      file-based actions stands before the \<open>try\<close>: of a truthy value that is no string it throws
      out of the handler\<close>
  "post_execute h b w =
     (case b_target b of
        JStr s \<Rightarrow>
          (case execute h \<lparr>rtype = b_type b, target = s, content = b_content b\<rparr> w of
             (resp, w') \<Rightarrow> (Responded resp, w'))
      | _ \<Rightarrow>
          if b_type b \<noteq> ''RUN_CMD'' \<and> truthy (b_target b)
          then (Unhandled (method_error ''target'' ''startsWith'' (b_target b)), w)
          else (case execute_try_value h (b_type b) (b_target b) w of
                  (Inl e, w') \<Rightarrow> (Responded (Result False (''Error: '' @ e)), w')
                | (Inr resp, w') \<Rightarrow> (Responded resp, w')))"

definition bind_try :: "(world \<Rightarrow> (string + 'a) \<times> world) \<Rightarrow> ('a \<Rightarrow> world \<Rightarrow> (string + 'b) \<times> world)
    \<Rightarrow> world \<Rightarrow> (string + 'b) \<times> world" where
  \<comment> \<open>one statement after the other inside the \<open>try\<close>: a thrown error skips the rest\<close>
  "bind_try f g w = (case f w of (Inl e, w1) \<Rightarrow> (Inl e, w1) | (Inr v, w1) \<Rightarrow> g v w1)"

definition new_effects :: "world \<Rightarrow> world \<Rightarrow> effect list" where
  \<comment> \<open>the calls made between an earlier world and a later one\<close>
  "new_effects w w' = drop (length (effects w)) (effects w')"

definition traced :: "(world \<Rightarrow> (string + 'a) \<times> world) \<Rightarrow> bool" where
  \<comment> \<open>a run of statements only adds to the calls made; it ends with a thrown error exactly when
      one of its calls threw that error\<close>
  "traced f =
     (\<forall>w. case f w of
             (res, w') \<Rightarrow>
               (\<exists>es. effects w' = effects w @ es
                  \<and> (case res of
                       Inl e \<Rightarrow> (\<exists>c. (c, Some e) \<in> set es)
                     | Inr v \<Rightarrow> (\<forall>c e. (c, Some e) \<notin> set es))))"

section \<open>ActionStore and NotificationHub\<close>

text \<open>
  The marker directory \<open>ACTIONS_DIR\<close> is a listing of file names with their contents, in the
  order \<open>readdirSync\<close> gives them. The directory exists: it is created when the server starts.
  A connection is the response object of one \<open>GET /api/events\<close> request, here a number.
  A marker is written in one step. The calls that a turn of the event loop wraps in a \<open>try\<close>
  may throw: which of them do, in that turn, is given with the turn.
\<close>

datatype message = ActionComplete string bool string
  \<comment> \<open>the event \<open>{type: 'action-complete', actionId, success, result, completedAt}\<close>, without the
      clock reading \<open>completedAt\<close>\<close>

fun actionId :: "message \<Rightarrow> string" where
  "actionId (ActionComplete a ok res) = a"

record hub =
  actions_dir :: "(string \<times> string) list"
  pending :: "(string \<times> pending_action) list"
    \<comment> \<open>\<open>pendingActions\<close>\<close>
  clientConnections :: "(nat \<times> string) list"
    \<comment> \<open>connection and session id\<close>
  sent :: "(nat \<times> message) list"
    \<comment> \<open>every \<open>action-complete\<close> event written, with its connection, oldest first\<close>

datatype hub_call =
    ReadMarker string
      \<comment> \<open>\<open>readFileSync\<close> of a marker file\<close>
  | UnlinkMarker string
      \<comment> \<open>\<open>unlinkSync\<close> of a marker file that exists\<close>
  | Send nat string
      \<comment> \<open>\<open>res.write\<close> to a connection of the event made from a marker file\<close>

type_synonym faults = "hub_call \<Rightarrow> bool"
  \<comment> \<open>the calls that throw during one turn\<close>

definition is_marker :: "string \<Rightarrow> bool" where
  "is_marker file = (endsWith file ''.txt'' \<or> endsWith file ''.err'')"

definition marker_id :: "string \<Rightarrow> string" where
  \<comment> \<open>\<open>file.replace(/\\.(txt|err)$/, '')\<close>\<close>
  "marker_id file = (if is_marker file then take (length file - 4) file else file)"

definition getActionOutputPath :: "string \<Rightarrow> string" where
  \<comment> \<open>the name, inside \<open>ACTIONS_DIR\<close>, of the success marker\<close>
  "getActionOutputPath a = a @ ''.txt''"

definition getActionErrorPath :: "string \<Rightarrow> string" where
  "getActionErrorPath a = a @ ''.err''"

definition unlinkSync :: "string \<Rightarrow> (string \<times> string) list \<Rightarrow> (string \<times> string) list" where
  \<comment> \<open>the directory after the file is removed\<close>
  "unlinkSync file dir = filter (\<lambda>(name, data). name \<noteq> file) dir"

definition try_unlinkSync :: "faults \<Rightarrow> string \<Rightarrow> (string \<times> string) list \<Rightarrow> (string \<times> string) list" where
  \<comment> \<open>\<open>try { unlinkSync(file) } catch {}\<close>: a call that throws leaves the file\<close>
  "try_unlinkSync fl file dir = (if fl (UnlinkMarker file) then dir else unlinkSync file dir)"

definition try_readFileSync :: "faults \<Rightarrow> string \<Rightarrow> (string \<times> string) list \<Rightarrow> string option" where
  \<comment> \<open>\<open>readFileSync(filePath, 'utf-8')\<close> inside a \<open>try\<close>: \<open>None\<close> when it throws\<close>
  "try_readFileSync fl file dir = (if fl (ReadMarker file) then None else map_of dir file)"

definition poll_file :: "faults \<Rightarrow> (nat \<times> string) list \<Rightarrow> string \<Rightarrow> hub \<Rightarrow> hub" where
  \<comment> \<open>one round of the loop of \<open>pollCompletedActions\<close> over the file names; \<open>clients\<close> is the snapshot
      of the connections\<close>
  "poll_file fl clients file s =
     (if \<not> endsWith file ''.txt'' \<and> \<not> endsWith file ''.err'' then s
      else (let a = marker_id file
            in case map_of (pending s) a of
                 None \<Rightarrow> s
               | Some action \<Rightarrow>
                   (case try_readFileSync fl file (actions_dir s) of
                      None \<Rightarrow> s
                    | Some result \<Rightarrow>
                        s\<lparr>actions_dir :=
                             try_unlinkSync fl (getActionErrorPath a)
                               (try_unlinkSync fl (getActionOutputPath a) (actions_dir s)),
                          pending := filter (\<lambda>(k, v). k \<noteq> a) (pending s),
                          sent := sent s
                            @ map (\<lambda>(res, sessionId). (res, ActionComplete a (endsWith file ''.txt'') result))
                                (filter (\<lambda>(res, sessionId). \<not> fl (Send res file)) clients)\<rparr>)))"

definition pollCompletedActions :: "faults \<Rightarrow> hub \<Rightarrow> hub" where
  "pollCompletedActions fl s =
     foldl (\<lambda>s' file. poll_file fl (clientConnections s) file s') s (map fst (actions_dir s))"

definition flush_file :: "faults \<Rightarrow> nat \<Rightarrow> string \<Rightarrow> hub \<Rightarrow> hub" where
  \<comment> \<open>one round of the catch-up loop: read, write to the new connection, unlink, all in one \<open>try\<close>\<close>
  "flush_file fl res file s =
     (case try_readFileSync fl file (actions_dir s) of
        None \<Rightarrow> s
      | Some result \<Rightarrow>
          if fl (Send res file) then s
          else s\<lparr>sent := sent s @ [(res, ActionComplete (marker_id file) (endsWith file ''.txt'') result)],
                 actions_dir := try_unlinkSync fl file (actions_dir s)\<rparr>)"

definition connect :: "faults \<Rightarrow> nat \<Rightarrow> string \<Rightarrow> hub \<Rightarrow> hub" where
  \<comment> \<open>the handler of \<open>GET /api/events\<close>, up to the heartbeat timer\<close>
  "connect fl res sessionId s =
     (let s1 = s\<lparr>clientConnections := map_set (clientConnections s) res sessionId\<rparr>
      in foldl (\<lambda>s' file. flush_file fl res file s') s1 (filter is_marker (map fst (actions_dir s1))))"

definition disconnect :: "nat \<Rightarrow> hub \<Rightarrow> hub" where
  \<comment> \<open>\<open>clientConnections.delete(res)\<close>: the request closed, or a heartbeat could not be written\<close>
  "disconnect res s = s\<lparr>clientConnections := filter (\<lambda>(r, sessionId). r \<noteq> res) (clientConnections s)\<rparr>"

definition exec_callback :: "string \<Rightarrow> string option \<Rightarrow> string \<Rightarrow> string \<Rightarrow> hub \<Rightarrow> hub" where
  \<comment> \<open>the callback given to \<open>exec\<close>, when its \<open>writeFile\<close> has written the marker; \<open>error\<close> is the
      message of an error whose code is not 0\<close>
  "exec_callback a error stdout stderr s =
     (case error of
        Some msg \<Rightarrow>
          s\<lparr>actions_dir := map_set (actions_dir s) (getActionErrorPath a)
                              (js_or msg (js_or stderr (js_or stdout ''Unknown error'')))\<rparr>
      | None \<Rightarrow>
          s\<lparr>actions_dir := map_set (actions_dir s) (getActionOutputPath a)
                              (js_or (stdout @ stderr) ''(no output)'')\<rparr>)"

definition child_error :: "string \<Rightarrow> string \<Rightarrow> hub \<Rightarrow> hub" where
  \<comment> \<open>the listener of the child's \<open>error\<close> event, when its \<open>writeFile\<close> has written the marker\<close>
  "child_error a msg s = s\<lparr>actions_dir := map_set (actions_dir s) (getActionErrorPath a) msg\<rparr>"

datatype event =
    Register string pending_action
      \<comment> \<open>\<open>pendingActions.set\<close> of the asynchronous branch of \<open>RUN_CMD\<close>\<close>
  | Exited string "string option" string string
      \<comment> \<open>the child of an action ended, or could not be started: the callback ran with error,
          stdout, stderr and its marker is written\<close>
  | ChildError string string
      \<comment> \<open>the child of an action could not be started: the listener of \<open>error\<close> ran and its marker
          is written\<close>
  | Poll faults
      \<comment> \<open>a tick of the 3-second timer\<close>
  | Connect nat string faults
  | Disconnect nat

fun step :: "event \<Rightarrow> hub \<Rightarrow> hub" where
  "step (Register a action) s = s\<lparr>pending := map_set (pending s) a action\<rparr>"
| "step (Exited a error stdout stderr) s = exec_callback a error stdout stderr s"
| "step (ChildError a msg) s = child_error a msg s"
| "step (Poll fl) s = pollCompletedActions fl s"
| "step (Connect res sessionId fl) s = connect fl res sessionId s"
| "step (Disconnect res) s = disconnect res s"

definition run :: "event list \<Rightarrow> hub \<Rightarrow> hub" where
  \<comment> \<open>the events of the event loop, one turn after the other\<close>
  "run es s = foldl (\<lambda>s' e. step e s') s es"

definition hub_start :: "(string \<times> string) list \<Rightarrow> hub" where
  \<comment> \<open>the hub when the server starts, over the marker directory as it finds it\<close>
  "hub_start dir = \<lparr>actions_dir = dir, pending = [], clientConnections = [], sent = []\<rparr>"

definition no_fault :: faults where
  "no_fault = (\<lambda>c. False)"


definition delivered :: "hub \<Rightarrow> string \<Rightarrow> (nat \<times> message) list" where
  \<comment> \<open>the events written for one action id, to any connection\<close>
  "delivered s a = filter (\<lambda>(r, m). actionId m = a) (sent s)"

definition marker_ids :: "(string \<times> string) list \<Rightarrow> string list" where
  \<comment> \<open>the action ids of the markers in a directory\<close>
  "marker_ids dir = map marker_id (filter is_marker (map fst dir))"

fun written_id :: "event \<Rightarrow> string list" where
  \<comment> \<open>the action whose marker an event writes\<close>
  "written_id (Exited a error stdout stderr) = [a]"
| "written_id (ChildError a msg) = [a]"
| "written_id e = []"

definition written_ids :: "event list \<Rightarrow> string list" where
  "written_ids es = concat (map written_id es)"




definition markers_of :: "string \<Rightarrow> (string \<times> string) list \<Rightarrow> (string \<times> string) list" where
  \<comment> \<open>the markers of one action id in a directory\<close>
  "markers_of a dir = filter (\<lambda>(name, d). is_marker name \<and> marker_id name = a) dir"

definition orphan :: "hub \<Rightarrow> string \<Rightarrow> string \<Rightarrow> string \<Rightarrow> bool" where
  \<comment> \<open>\<open>file\<close>, with content \<open>data\<close>, is the one marker of the action id \<open>a\<close> in the directory, and
      \<open>a\<close> has no entry in \<open>pendingActions\<close>\<close>
  "orphan s a file data =
     (markers_of a (actions_dir s) = [(file, data)] \<and> map_of (pending s) a = None)"

fun is_connect :: "event \<Rightarrow> bool" where
  "is_connect (Connect res sessionId fl) = True"
| "is_connect e = False"

fun registered_id :: "event \<Rightarrow> string list" where
  \<comment> \<open>the action id an event registers\<close>
  "registered_id (Register a action) = [a]"
| "registered_id e = []"

definition registered_ids :: "event list \<Rightarrow> string list" where
  "registered_ids es = concat (map registered_id es)"

definition delivered_pairs :: "hub \<Rightarrow> (nat \<times> string) list" where
  \<comment> \<open>connection and action id of every event written\<close>
  "delivered_pairs s = map (\<lambda>(r, m). (r, actionId m)) (sent s)"

definition hub_inv :: "string set \<Rightarrow> hub \<Rightarrow> bool" where
  \<comment> \<open>what every turn of the event loop keeps when no \<open>unlinkSync\<close> throws, over the set \<open>U\<close> of the
      action ids whose marker has been written so far: no id has two markers, no connection has
      been sent an id twice, the connections are the keys of a map, and an id whose marker is in
      the directory has not been sent to anyone\<close>
  "hub_inv U s =
     (distinct (marker_ids (actions_dir s))
      \<and> distinct (delivered_pairs s)
      \<and> distinct (map fst (clientConnections s))
      \<and> set (marker_ids (actions_dir s)) \<subseteq> U
      \<and> snd ` set (delivered_pairs s) \<subseteq> U
      \<and> (\<forall>a\<in>set (marker_ids (actions_dir s)). \<forall>r. (r, a) \<notin> set (delivered_pairs s)))"

section \<open>A host and a world for the examples\<close>

definition demo_dirname :: "string \<Rightarrow> string" where
  \<comment> \<open>\<open>path.dirname\<close> on an absolute path that does not end with a separator\<close>
  "demo_dirname p =
     (let d = rev (tl (dropWhile (\<lambda>c. c \<noteq> CHR ''/'') (rev p))) in if d = [] then ''/'' else d)"

definition demo_join :: "string \<Rightarrow> string \<Rightarrow> string" where
  \<comment> \<open>\<open>path.join\<close> on a normalized directory and a relative path without \<open>.\<close>, \<open>..\<close> or empty segments\<close>
  "demo_join a b = a @ ''/'' @ b"

definition demo_now :: timestamp where
  "demo_now = \<lparr>year = 2026, month = 11, day = 3, hour = 1, minute = 2, second = 3, millis = 45\<rparr>"

definition demo_host :: host where
  "demo_host =
     \<lparr>cwd = ''/srv/middleclaw'', BACKUP_DIR = ''/srv/middleclaw/.middleclaw-backups'',
      path_join = demo_join, path_dirname = demo_dirname,
      now = demo_now, now_ms = 1762131723045, random_digits = ''k3x9ab'',
      io_fault = (\<lambda>e. None),
      execSync_result = (\<lambda>cmd timeout maxBuffer dir. Returned ''hello'')\<rparr>"

definition demo_world :: world where
  "demo_world =
     \<lparr>fs = [''/tmp'' \<mapsto> Dir, ''/tmp/x.txt'' \<mapsto> File ''old'', ''/tmp/run.sh'' \<mapsto> File ''echo hi''],
      SAFE_READ_PATHS = [''/etc/'', ''/tmp/''], SAFE_WRITE_PATHS = [''/tmp/''],
      pendingActions = [], effects = []\<rparr>"

definition demo_backup_path :: string where
  \<comment> \<open>where \<open>demo_host\<close> puts a backup of \<open>/tmp/x.txt\<close>\<close>
  "demo_backup_path = ''/srv/middleclaw/.middleclaw-backups/__tmp__x.txt.2026-11-03T01-02-03-045Z.bak''"

definition demo_action :: pending_action where
  "demo_action = \<lparr>ptype = ''RUN_CMD'', ptarget = JStr ''openclaw agent'', startedAt = ''2026-11-03T01:02:03.045Z''\<rparr>"

definition demo_dir :: "(string \<times> string) list" where
  \<comment> \<open>a marker directory with a file that is no marker and the failure marker of an action of an
      earlier run of the server\<close>
  "demo_dir = [(''README'', ''markers''), (''act_1_old.err'', ''boom'')]"

definition demo_trace :: "event list" where
  "demo_trace =
     [Poll no_fault, Connect 1 ''s1'' no_fault, Register ''act_2_new'' demo_action, Connect 2 ''s2'' no_fault,
      Exited ''act_2_new'' None ''out'' [], Poll no_fault, Disconnect 1, Poll no_fault,
      Connect 3 ''s3'' no_fault]"




definition stuck_orphan :: faults where
  \<comment> \<open>a turn in which the marker \<open>act_1_old.err\<close> cannot be removed\<close>
  "stuck_orphan = (\<lambda>c. c = UnlinkMarker ''act_1_old.err'')"

definition orphan_trace :: "event list" where
  \<comment> \<open>two clients connect, one after the other; the first cannot remove the marker\<close>
  "orphan_trace = [Poll no_fault, Connect 1 ''s1'' stuck_orphan, Poll no_fault, Connect 2 ''s2'' no_fault]"

definition faulty_host :: host where
  \<comment> \<open>the same host on a machine where \<open>/tmp/x.txt\<close> cannot be read\<close>
  "faulty_host =
     demo_host\<lparr>io_fault :=
       (\<lambda>c. if c = ReadFileSync ''/tmp/x.txt'' then Some ''EACCES: permission denied'' else None)\<rparr>"

definition full_disk_host :: host where
  \<comment> \<open>the same host on a machine where no file can be copied\<close>
  "full_disk_host =
     demo_host\<lparr>io_fault :=
       (\<lambda>c. case c of
              CopyFileSync src dst \<Rightarrow> Some ''ENOSPC: no space left on device, copyfile''
            | _ \<Rightarrow> None)\<rparr>"



section \<open>Properties\<close>

subsection \<open>Strings and the policy predicates\<close>

lemma startsWith_iff: "startsWith s p \<longleftrightarrow> (\<exists>rest. s = p @ rest)"
  unfolding startsWith_def
  by (metis append_eq_conv_conj append_take_drop_id)

lemma isCommandBlocked_iff:
  "isCommandBlocked cmd \<longleftrightarrow> (\<exists>pattern\<in>set BLOCKED_COMMANDS. regex_test pattern cmd)"
  by (simp add: isCommandBlocked_def list_ex_iff)

text \<open>
  C1. A \<open>RUN_CMD\<close> request whose command matches a pattern of the blocklist is answered with
  \<open>success: false\<close> and the \<open>Blocked\<close> message, and the world after the request is the world before
  it: no call is added to the calls made (neither \<open>execSync\<close> nor \<open>exec\<close>), and nothing is
  registered in \<open>pendingActions\<close>.
\<close>

theorem blocked_command_never_spawns:
  assumes "rtype r = ''RUN_CMD''"
    and "\<exists>pattern\<in>set BLOCKED_COMMANDS. regex_test pattern (target r)"
  shows "execute h r w =
           (Result False (''Blocked: '' @ dq @ target r @ dq
              @ '' matches a dangerous command pattern. MiddleClaw refuses to run it.''), w)"
  using assms
  by (simp add: execute_def execute_try_def resolve_target_def run_cmd_def isCommandBlocked_iff)

theorem blocked_command_never_spawns_witness:
  "(\<exists>pattern\<in>set BLOCKED_COMMANDS. regex_test pattern ''rm -rf /'')
   \<and> execute demo_host \<lparr>rtype = ''RUN_CMD'', target = ''rm -rf /'', content = None\<rparr> demo_world =
       (Result False (''Blocked: '' @ dq @ ''rm -rf /'' @ dq
          @ '' matches a dangerous command pattern. MiddleClaw refuses to run it.''), demo_world)"
proof -
  have b: "\<exists>pattern\<in>set BLOCKED_COMMANDS. regex_test pattern ''rm -rf /''"
    by code_simp
  show ?thesis
    using b blocked_command_never_spawns
      [of "\<lparr>rtype = ''RUN_CMD'', target = ''rm -rf /'', content = None\<rparr>" demo_host demo_world]
    by simp
qed

text \<open>
  C5. A \<open>READ_FILE\<close> request whose path, once resolved to an absolute one, starts with none of the
  readable prefixes is answered with the access-denied failure, and the world after the request
  is the world before it: the list of calls made is the same, so there is no \<open>existsSync\<close> and no
  \<open>readFileSync\<close> on the path.
\<close>

theorem read_denied_touches_nothing:
  assumes "rtype r = ''READ_FILE''"
    and "\<forall>p\<in>set (SAFE_READ_PATHS w). \<not> prefix p (resolve_target h r)"
  shows "execute h r w =
           (Result False (''Access denied: '' @ dq @ resolve_target h r @ dq
              @ '' is outside allowed read paths.''), w)"
  using assms
  by (auto simp add: execute_def execute_try_def read_file_def isPathReadable_def list_ex_iff
      startsWith_iff prefix_def)

theorem read_denied_touches_nothing_witness:
  "\<not> (\<exists>p\<in>set (SAFE_READ_PATHS demo_world).
        prefix p (resolve_target demo_host
                    \<lparr>rtype = ''READ_FILE'', target = ''/root/.ssh/id_rsa'', content = None\<rparr>))
   \<and> execute demo_host \<lparr>rtype = ''READ_FILE'', target = ''/root/.ssh/id_rsa'', content = None\<rparr> demo_world =
       (Result False (''Access denied: '' @ dq @ ''/root/.ssh/id_rsa'' @ dq
          @ '' is outside allowed read paths.''), demo_world)"
proof -
  have d: "\<forall>p\<in>set (SAFE_READ_PATHS demo_world).
      \<not> prefix p (resolve_target demo_host
                    \<lparr>rtype = ''READ_FILE'', target = ''/root/.ssh/id_rsa'', content = None\<rparr>)"
    by (simp add: demo_world_def resolve_target_def startsWith_def)
  have t: "resolve_target demo_host
             \<lparr>rtype = ''READ_FILE'', target = ''/root/.ssh/id_rsa'', content = None\<rparr> = ''/root/.ssh/id_rsa''"
    by (simp add: resolve_target_def startsWith_def)
  show ?thesis
    using d read_denied_touches_nothing
      [of "\<lparr>rtype = ''READ_FILE'', target = ''/root/.ssh/id_rsa'', content = None\<rparr>" demo_world demo_host]
    by (simp add: t)
qed

text \<open>
  C8. \<open>isPathReadable\<close> and \<open>isPathWritable\<close> are true exactly when the path starts with one of
  the prefixes of their own list, as strings. The lists are independent: a path can pass both
  tests, or one only. The path is not canonicalized: \<open>/tmp/../etc/shadow\<close> is readable under the
  prefix \<open>/tmp/\<close>, although \<open>/etc/shadow\<close> is not.
\<close>

theorem path_guards_are_prefix_tests:
  "(isPathReadable read_paths path \<longleftrightarrow> (\<exists>p\<in>set read_paths. prefix p path))
   \<and> (isPathWritable write_paths path \<longleftrightarrow> (\<exists>p\<in>set write_paths. prefix p path))
   \<and> isPathReadable [''/etc/'', ''/tmp/''] ''/tmp/a'' \<and> isPathWritable [''/tmp/''] ''/tmp/a''
   \<and> isPathReadable [''/etc/'', ''/tmp/''] ''/etc/a'' \<and> \<not> isPathWritable [''/tmp/''] ''/etc/a''
   \<and> isPathReadable [''/tmp/''] ''/tmp/../etc/shadow'' \<and> \<not> isPathReadable [''/tmp/''] ''/etc/shadow''"
  by (auto simp add: isPathReadable_def isPathWritable_def list_ex_iff startsWith_iff prefix_def)

theorem path_guards_are_prefix_tests_witness:
  "isPathReadable [''/etc/'', ''/tmp/''] ''/tmp/notes.txt''
   \<and> (\<exists>p\<in>set [''/etc/'', ''/tmp/'']. prefix p ''/tmp/notes.txt'')
   \<and> \<not> isPathWritable [''/tmp/''] ''/etc/passwd''
   \<and> \<not> (\<exists>p\<in>set [''/tmp/'']. prefix p ''/etc/passwd'')"
  using path_guards_are_prefix_tests [of "[''/etc/'', ''/tmp/'']" "''/tmp/notes.txt''" "[''/tmp/'']"]
    path_guards_are_prefix_tests [of "[''/tmp/'']" "''/etc/passwd''" "[''/tmp/'']"]
  by (simp add: isPathReadable_def isPathWritable_def startsWith_def)

subsection \<open>Commands and scripts\<close>




















subsection \<open>Failures of the handler\<close>



lemma isPathReadable_iff: "isPathReadable ps path \<longleftrightarrow> (\<exists>p\<in>set ps. prefix p path)"
  by (auto simp add: isPathReadable_def list_ex_iff startsWith_iff prefix_def)

lemma isPathWritable_iff: "isPathWritable ps path \<longleftrightarrow> (\<exists>p\<in>set ps. prefix p path)"
  by (auto simp add: isPathWritable_def list_ex_iff startsWith_iff prefix_def)

lemma new_effects_append [simp]: "effects w' = effects w @ es \<Longrightarrow> new_effects w w' = es"
  by (simp add: new_effects_def)

lemma read_file_failures:
  "case read_file h tgt w of (res, w') \<Rightarrow>
     (case res of
        Inl e \<Rightarrow> (\<exists>c. (c, Some e) \<in> set (new_effects w w'))
      | Inr (Result ok msg) \<Rightarrow>
          (\<not> ok) = (\<not> isPathReadable (SAFE_READ_PATHS w) tgt \<or> fs w tgt = None)
          \<and> (\<forall>c e. (c, Some e) \<notin> set (new_effects w w'))
      | Inr (Running a msg) \<Rightarrow> False)"
  by (auto simp add: read_file_def existsSync_def readFileSync_def log_def thrown_def new_effects_def
      Let_def split: option.splits node.splits bool.splits prod.splits sum.splits response.splits)

lemma run_cmd_failures:
  "case run_cmd h tgt w of (res, w') \<Rightarrow>
     (case res of
        Inl e \<Rightarrow> (\<exists>c. (c, Some e) \<in> set (new_effects w w')) \<and> \<not> isCommandBlocked tgt
      | Inr (Result ok msg) \<Rightarrow>
          (\<not> ok) = (isCommandBlocked tgt \<or> (\<exists>c e. (c, Some e) \<in> set (new_effects w w')))
      | Inr (Running a msg) \<Rightarrow> (\<forall>c e. (c, Some e) \<notin> set (new_effects w w')) \<and> \<not> isCommandBlocked tgt)"
  by (auto simp add: run_cmd_def execSync_def exec_outcome_def log_def new_effects_def
      Let_def split: exec_result.splits bool.splits prod.splits sum.splits response.splits option.splits)

lemma run_script_failures:
  "case run_script h tgt cnt w of (res, w') \<Rightarrow>
     (case res of
        Inl e \<Rightarrow> False
      | Inr (Result ok msg) \<Rightarrow>
          (\<not> ok) = (\<not> isPathReadable (SAFE_READ_PATHS w) tgt \<or> fs w tgt = None
                     \<or> isCommandBlocked (script_fullCmd tgt cnt)
                     \<or> (\<exists>c e. (c, Some e) \<in> set (new_effects w w')))
      | Inr (Running a msg) \<Rightarrow> False)"
  by (auto simp add: run_script_def existsSync_def execSync_def exec_outcome_def log_def new_effects_def
      Let_def split: exec_result.splits bool.splits prod.splits sum.splits response.splits)


lemma tracedD:
  "traced f \<Longrightarrow> f w = (res, w') \<Longrightarrow>
     \<exists>es. effects w' = effects w @ es
        \<and> (case res of Inl e \<Rightarrow> \<exists>c. (c, Some e) \<in> set es | Inr v \<Rightarrow> \<forall>c e. (c, Some e) \<notin> set es)"
  unfolding traced_def by (erule allE [of _ w]) simp

lemma tracedI:
  "(\<And>w res w'. f w = (res, w') \<Longrightarrow>
      \<exists>es. effects w' = effects w @ es
        \<and> (case res of Inl e \<Rightarrow> \<exists>c. (c, Some e) \<in> set es | Inr v \<Rightarrow> \<forall>c e. (c, Some e) \<notin> set es))
   \<Longrightarrow> traced f"
  unfolding traced_def by (simp split: prod.splits)

lemma traced_bind:
  assumes F: "traced f" and G: "\<And>v. traced (g v)"
  shows "traced (bind_try f g)"
proof (rule tracedI)
  fix w res w'
  assume b: "bind_try f g w = (res, w')"
  obtain r1 w1 where f: "f w = (r1, w1)" by force
  from tracedD [OF F f] obtain es1 where e1: "effects w1 = effects w @ es1"
    and t1: "case r1 of Inl e \<Rightarrow> \<exists>c. (c, Some e) \<in> set es1 | Inr v \<Rightarrow> \<forall>c e. (c, Some e) \<notin> set es1"
    by blast
  show "\<exists>es. effects w' = effects w @ es
        \<and> (case res of Inl e \<Rightarrow> \<exists>c. (c, Some e) \<in> set es | Inr v \<Rightarrow> \<forall>c e. (c, Some e) \<notin> set es)"
  proof (cases r1)
    case (Inl e)
    then have "res = Inl e" "w' = w1" using b f by (simp_all add: bind_try_def)
    then show ?thesis using e1 t1 Inl by auto
  next
    case (Inr v)
    then have g: "g v w1 = (res, w')" using b f by (simp add: bind_try_def)
    from tracedD [OF G g] obtain es2 where e2: "effects w' = effects w1 @ es2"
      and t2: "case res of Inl e \<Rightarrow> \<exists>c. (c, Some e) \<in> set es2 | Inr v \<Rightarrow> \<forall>c e. (c, Some e) \<notin> set es2"
      by blast
    have n1: "\<forall>c e. (c, Some e) \<notin> set es1" using t1 Inr by simp
    have "effects w' = effects w @ (es1 @ es2)" using e1 e2 by simp
    moreover have "case res of Inl e \<Rightarrow> \<exists>c. (c, Some e) \<in> set (es1 @ es2)
                   | Inr v \<Rightarrow> \<forall>c e. (c, Some e) \<notin> set (es1 @ es2)"
      using n1 t2 by (cases res) auto
    ultimately show ?thesis by blast
  qed
qed

lemma traced_return: "traced (\<lambda>w. (Inr v, w))"
  by (simp add: traced_def)

lemma traced_ensure_dir: "traced (ensure_dir h d)"
  by (auto simp add: traced_def ensure_dir_def existsSync_def mkdirSync_def log_def
      split: option.splits node.splits bool.splits)

lemma traced_copyFileSync: "traced (copyFileSync h src dst)"
  by (auto simp add: traced_def copyFileSync_def log_def split: option.splits node.splits)

lemma traced_writeFileSync: "traced (writeFileSync h p d)"
  by (auto simp add: traced_def writeFileSync_def log_def split: option.splits node.splits)

lemma traced_existsSync: "traced (\<lambda>w. case existsSync p w of (b, w1) \<Rightarrow> (Inr b, w1))"
  by (auto simp add: traced_def existsSync_def log_def)

lemma backupFile_bind:
  "backupFile h p =
     bind_try (\<lambda>w. case existsSync p w of (b, w1) \<Rightarrow> (Inr b, w1))
       (\<lambda>b. if b then bind_try (ensure_dir h (BACKUP_DIR h))
                       (\<lambda>u. bind_try (copyFileSync h p (path_join h (BACKUP_DIR h) (backupName p (now h))))
                               (\<lambda>u' w. (Inr (Some (path_join h (BACKUP_DIR h) (backupName p (now h)))), w)))
             else (\<lambda>w. (Inr None, w)))"
  by (rule ext) (simp add: backupFile_def bind_try_def Let_def split: prod.splits sum.splits bool.splits)

lemma traced_backupFile: "traced (backupFile h p)"
  unfolding backupFile_bind
  apply (rule traced_bind [OF traced_existsSync])
  apply (simp add: traced_bind traced_ensure_dir traced_copyFileSync traced_return)
  done

lemma write_file_bind:
  "isPathWritable (SAFE_WRITE_PATHS w) tgt \<Longrightarrow>
   write_file h tgt cnt w =
     bind_try (ensure_dir h (path_dirname h tgt))
       (\<lambda>u. bind_try (backupFile h tgt)
          (\<lambda>backup. bind_try (writeFileSync h tgt cnt)
             (\<lambda>u' w. (Inr (Result True
                              (case backup of
                                 Some b \<Rightarrow> ''File written. Backup saved to: '' @ b
                               | None \<Rightarrow> ''File created at: '' @ tgt)), w)))) w"
  by (simp add: write_file_def bind_try_def split: prod.splits sum.splits)

lemma write_file_failures:
  "case write_file h tgt cnt w of (res, w') \<Rightarrow>
     (case res of
        Inl e \<Rightarrow> (\<exists>c. (c, Some e) \<in> set (new_effects w w'))
      | Inr (Result ok msg) \<Rightarrow>
          (\<not> ok) = (\<not> isPathWritable (SAFE_WRITE_PATHS w) tgt)
          \<and> (\<forall>c e. (c, Some e) \<notin> set (new_effects w w'))
      | Inr (Running a msg) \<Rightarrow> False)"
proof (cases "isPathWritable (SAFE_WRITE_PATHS w) tgt")
  case False
  then show ?thesis by (simp add: write_file_def new_effects_def)
next
  case True
  let ?f = "bind_try (ensure_dir h (path_dirname h tgt))
       (\<lambda>u. bind_try (backupFile h tgt)
          (\<lambda>backup. bind_try (writeFileSync h tgt cnt)
             (\<lambda>u' w. (Inr (Result True
                              (case backup of
                                 Some b \<Rightarrow> ''File written. Backup saved to: '' @ b
                               | None \<Rightarrow> ''File created at: '' @ tgt)), w))))"
  have tr: "traced ?f"
    by (simp add: traced_bind traced_ensure_dir traced_backupFile traced_writeFileSync traced_return)
  have ok: "\<And>w0 v w1. ?f w0 = (Inr v, w1) \<Longrightarrow> \<exists>msg. v = Result True msg"
    by (auto simp add: bind_try_def split: prod.splits sum.splits)
  obtain res w' where r: "?f w = (res, w')" by force
  from tracedD [OF tr r] obtain es where es: "effects w' = effects w @ es"
    and t: "case res of Inl e \<Rightarrow> \<exists>c. (c, Some e) \<in> set es | Inr v \<Rightarrow> \<forall>c e. (c, Some e) \<notin> set es"
    by blast
  have ne: "new_effects w w' = es" using es by (simp add: new_effects_def)
  show ?thesis
  proof (cases res)
    case (Inl e)
    then show ?thesis using r t ne True write_file_bind [OF True, where h = h and cnt = cnt] by simp
  next
    case (Inr v)
    then obtain msg where "v = Result True msg" using ok r by blast
    then show ?thesis using Inr r t ne True write_file_bind [OF True, where h = h and cnt = cnt] by simp
  qed
qed

text \<open>
  What the handler answers to a request whose target is a string: an error thrown inside the
  \<open>switch\<close> is answered by the \<open>catch\<close> as \<open>{success: false, result: 'Error: ' + message}\<close>, and
  the answer is a failure \<open>{success: false, result}\<close> exactly when a failure arose: access denied,
  file or script missing, command blocked, a call that threw (a filesystem call that failed,
  \<open>execSync\<close> after a non-zero exit, a timeout or an overflow, or \<open>exec\<close> that could not spawn), or
  an unknown action type.
\<close>

lemma string_target_failures:
  "case execute h r w of
     (resp, w') \<Rightarrow>
       (let tgt = resolve_target h r
        in ((\<exists>msg. resp = Result False msg) \<longleftrightarrow>
              (rtype r \<in> {''READ_FILE'', ''RUN_SCRIPT''} \<and> \<not> isPathReadable (SAFE_READ_PATHS w) tgt)
            \<or> (rtype r = ''WRITE_FILE'' \<and> \<not> isPathWritable (SAFE_WRITE_PATHS w) tgt)
            \<or> (rtype r \<in> {''READ_FILE'', ''RUN_SCRIPT''} \<and> fs w tgt = None)
            \<or> (rtype r = ''RUN_CMD'' \<and> isCommandBlocked tgt)
            \<or> (rtype r = ''RUN_SCRIPT'' \<and> isCommandBlocked (script_fullCmd tgt (content r)))
            \<or> (\<exists>c e. (c, Some e) \<in> set (new_effects w w'))
            \<or> rtype r \<notin> {''READ_FILE'', ''RUN_CMD'', ''RUN_SCRIPT'', ''WRITE_FILE''})
           \<and> (\<forall>e. fst (execute_try h r w) = Inl e \<longrightarrow> resp = Result False (''Error: '' @ e)))"
proof -
  let ?tgt = "resolve_target h r"
  consider (rd) "rtype r = ''READ_FILE''" | (cmd) "rtype r = ''RUN_CMD''"
    | (scr) "rtype r = ''RUN_SCRIPT''" | (wr) "rtype r = ''WRITE_FILE''"
    | (other) "rtype r \<notin> {''READ_FILE'', ''RUN_CMD'', ''RUN_SCRIPT'', ''WRITE_FILE''}"
    by auto
  then show ?thesis
  proof cases
    case rd
    then have t: "execute_try h r w = read_file h ?tgt w"
      by (simp add: execute_try_def)
    show ?thesis
      using read_file_failures [where h = h and tgt = "?tgt" and w = w] rd
      unfolding execute_def t Let_def
      by (auto split: prod.splits sum.splits response.splits)
  next
    case cmd
    then have t: "execute_try h r w = run_cmd h ?tgt w"
      by (simp add: execute_try_def)
    show ?thesis
      using run_cmd_failures [where h = h and tgt = "?tgt" and w = w] cmd
      unfolding execute_def t Let_def
      by (auto split: prod.splits sum.splits response.splits)
  next
    case scr
    then have t: "execute_try h r w = run_script h ?tgt (content r) w"
      by (simp add: execute_try_def)
    show ?thesis
      using run_script_failures [where h = h and tgt = "?tgt" and cnt = "content r" and w = w] scr
      unfolding execute_def t Let_def
      by (auto split: prod.splits sum.splits response.splits)
  next
    case wr
    then have t: "execute_try h r w = write_file h ?tgt (content r) w"
      by (simp add: execute_try_def)
    show ?thesis
      using write_file_failures [where h = h and tgt = "?tgt" and cnt = "content r" and w = w] wr
      unfolding execute_def t Let_def
      by (auto split: prod.splits sum.splits response.splits)
  next
    case other
    then show ?thesis
      by (auto simp add: execute_def execute_try_def new_effects_def Let_def)
  qed
qed

text \<open>
  An error leaves the handler exactly for a file-based action whose target is truthy and no
  string; every other request is answered.
\<close>

lemma unhandled_iff:
  "(\<exists>e w'. post_execute h b w = (Unhandled e, w')) \<longleftrightarrow>
     b_type b \<noteq> ''RUN_CMD'' \<and> truthy (b_target b) \<and> (\<forall>s. b_target b \<noteq> JStr s)"
  by (cases "b_target b")
    (auto simp add: post_execute_def truthy_def split: prod.splits sum.splits)

text \<open>
  Three requests whose target is no string and that are answered: a command given as an array
  is tested against the blocklist as the string of its elements; a number has no \<open>includes\<close>;
  \<open>null\<close> is falsy, passes the test before the \<open>try\<close> and fails inside \<open>isPathReadable\<close>.
\<close>

lemma other_values_are_answered:
  "post_execute demo_host \<lparr>b_type = ''RUN_CMD'', b_target = JArr [JStr ''rm -rf /''], b_content = None\<rparr> demo_world =
     (Responded (Result False (''Blocked: '' @ dq @ ''rm -rf /'' @ dq
        @ '' matches a dangerous command pattern. MiddleClaw refuses to run it.'')), demo_world)"
  "post_execute demo_host \<lparr>b_type = ''RUN_CMD'', b_target = JNum 5, b_content = None\<rparr> demo_world =
     (Responded (Result False ''Error: target.includes is not a function''), demo_world)"
  "post_execute demo_host \<lparr>b_type = ''READ_FILE'', b_target = JNull, b_content = None\<rparr> demo_world =
     (Responded (Result False (''Error: Cannot read properties of null (reading '' @ sq @ ''startsWith'' @ sq @ '')'')),
      demo_world)"
proof -
  have b: "isCommandBlocked ''rm -rf /''" by code_simp
  have n: "\<not> isCommandBlocked ''5''" by code_simp
  have five: "show_int 5 = ''5''"
    by (simp add: show_int_def show_nat.simps digit_def)
  show "post_execute demo_host \<lparr>b_type = ''RUN_CMD'', b_target = JArr [JStr ''rm -rf /''], b_content = None\<rparr> demo_world =
     (Responded (Result False (''Blocked: '' @ dq @ ''rm -rf /'' @ dq
        @ '' matches a dangerous command pattern. MiddleClaw refuses to run it.'')), demo_world)"
    using b by (simp add: post_execute_def execute_try_value_def)
  show "post_execute demo_host \<lparr>b_type = ''RUN_CMD'', b_target = JNum 5, b_content = None\<rparr> demo_world =
     (Responded (Result False ''Error: target.includes is not a function''), demo_world)"
    using n by (simp add: post_execute_def execute_try_value_def five method_error_def)
  show "post_execute demo_host \<lparr>b_type = ''READ_FILE'', b_target = JNull, b_content = None\<rparr> demo_world =
     (Responded (Result False (''Error: Cannot read properties of null (reading '' @ sq @ ''startsWith'' @ sq @ '')'')),
      demo_world)"
    by (simp add: post_execute_def execute_try_value_def truthy_def method_error_def demo_world_def)
qed

text \<open>
  C9. Not every failure is answered by a structured response: the request
  \<open>{type: 'READ_FILE', target: 5}\<close> makes \<open>target.startsWith('/')\<close> throw a \<open>TypeError\<close> before the
  \<open>try\<close> is entered, so that the error leaves the handler and no \<open>{success: false, result}\<close> is
  sent, on every host and in every state.
\<close>

theorem non_string_target_is_unhandled:
  "post_execute h \<lparr>b_type = ''READ_FILE'', b_target = JNum 5, b_content = None\<rparr> w =
     (Unhandled ''target.startsWith is not a function'', w)"
  by (simp add: post_execute_def truthy_def method_error_def)

subsection \<open>Backup before write\<close>


lemma ensure_dir_cases:
  "ensure_dir h d w =
     (if fs w d \<noteq> None then (Inr (), w\<lparr>effects := effects w @ [(ExistsSync d, None)]\<rparr>)
      else (case io_fault h (MkdirSync d) of
              Some e \<Rightarrow> (Inl e, w\<lparr>effects := effects w @ [(ExistsSync d, None), (MkdirSync d, Some e)]\<rparr>)
            | None \<Rightarrow> (Inr (), w\<lparr>fs := (fs w)(d \<mapsto> Dir),
                               effects := effects w @ [(ExistsSync d, None), (MkdirSync d, None)]\<rparr>)))"
  by (auto simp add: ensure_dir_def existsSync_def mkdirSync_def log_def split: option.splits)

lemma ensure_dir_keeps:
  assumes "fs w p = Some x" and "ensure_dir h d w = (res, w1)"
  shows "fs w1 p = Some x
         \<and> (\<exists>pre. effects w1 = effects w @ pre \<and> (\<forall>y\<in>set pre. \<exists>q. fst y = ExistsSync q \<or> fst y = MkdirSync q))"
proof (cases "fs w d \<noteq> None")
  case True
  then show ?thesis using assms by (auto simp add: ensure_dir_cases)
next
  case False
  then have "d \<noteq> p" using assms(1) by auto
  then show ?thesis using assms False by (auto simp add: ensure_dir_cases split: option.splits)
qed

lemma write_file_outcomes:
  assumes wr: "isPathWritable (SAFE_WRITE_PATHS w) tgt"
    and ex: "fs w tgt = Some (File old)"
    and run: "write_file h tgt cnt w = (res, w')"
    and bp: "bp = path_join h (BACKUP_DIR h) (backupName tgt (now h))"
  shows "\<exists>pre. (\<forall>y\<in>set pre. \<exists>q. fst y = ExistsSync q \<or> fst y = MkdirSync q)
     \<and> ((\<exists>e. res = Inl e \<and> effects w' = effects w @ pre \<and> fs w' tgt = Some (File old))
        \<or> (\<exists>e. res = Inl e \<and> io_fault h (CopyFileSync tgt bp) = Some e
                \<and> effects w' = effects w @ pre @ [(CopyFileSync tgt bp, Some e)]
                \<and> fs w' tgt = Some (File old))
        \<or> (\<exists>e. res = Inl e \<and> io_fault h (CopyFileSync tgt bp) = None
                \<and> effects w' = effects w @ pre @ [(CopyFileSync tgt bp, None), (WriteFileSync tgt cnt, Some e)]
                \<and> fs w' tgt = Some (File old) \<and> fs w' bp = Some (File old))
        \<or> (\<exists>d. cnt = Some d \<and> res = Inr (Result True (''File written. Backup saved to: '' @ bp))
                \<and> io_fault h (CopyFileSync tgt bp) = None
                \<and> effects w' = effects w @ pre @ [(CopyFileSync tgt bp, None), (WriteFileSync tgt cnt, None)]
                \<and> fs w' tgt = Some (File d) \<and> (bp \<noteq> tgt \<longrightarrow> fs w' bp = Some (File old))))"
proof -
  let ?D = "\<lambda>pre. \<forall>y\<in>set pre. \<exists>q. fst y = ExistsSync q \<or> fst y = MkdirSync q"
  obtain rA wA where A: "ensure_dir h (path_dirname h tgt) w = (rA, wA)" by force
  from ensure_dir_keeps [OF ex A] obtain preA where
    fA: "fs wA tgt = Some (File old)" and eA: "effects wA = effects w @ preA" and dA: "?D preA"
    by blast
  show ?thesis
  proof (cases rA)
    case (Inl e)
    then have "res = Inl e" "w' = wA"
      using run wr A by (simp_all add: write_file_def)
    then show ?thesis using fA eA dA by blast
  next
    case (Inr u)
    then have run2: "(case backupFile h tgt wA of
                   (Inl e, w3) \<Rightarrow> (Inl e, w3)
                 | (Inr backup, w3) \<Rightarrow>
                     (case writeFileSync h tgt cnt w3 of
                        (Inl e, w4) \<Rightarrow> (Inl e, w4)
                      | (Inr u', w4) \<Rightarrow>
                          (Inr (Result True
                                  (case backup of
                                     Some b \<Rightarrow> ''File written. Backup saved to: '' @ b
                                   | None \<Rightarrow> ''File created at: '' @ tgt)), w4))) = (res, w')"
      using run wr A by (simp add: write_file_def)
    let ?w1 = "wA\<lparr>effects := effects wA @ [(ExistsSync tgt, None)]\<rparr>"
    have x1: "existsSync tgt wA = (True, ?w1)"
      using fA by (simp add: existsSync_def log_def)
    have f1: "fs ?w1 tgt = Some (File old)" using fA by simp
    obtain rB wB where B: "ensure_dir h (BACKUP_DIR h) ?w1 = (rB, wB)" by force
    from ensure_dir_keeps [OF f1 B] obtain preB where
      fB: "fs wB tgt = Some (File old)" and eB: "effects wB = effects ?w1 @ preB" and dB: "?D preB"
      by blast
    let ?pre = "preA @ [(ExistsSync tgt, None)] @ preB"
    have dP: "?D ?pre" using dA dB by auto
    have eP: "effects wB = effects w @ ?pre" using eA eB by simp
    show ?thesis
    proof (cases rB)
      case (Inl e)
      then have bk: "backupFile h tgt wA = (Inl e, wB)"
        using x1 B by (simp add: backupFile_def)
      then have "res = Inl e" "w' = wB" using run2 by simp_all
      then show ?thesis using fB eP dP by blast
    next
      case (Inr u2)
      show ?thesis
      proof (cases "io_fault h (CopyFileSync tgt bp)")
        case (Some e)
        then have cp: "copyFileSync h tgt bp wB = (Inl e, wB\<lparr>effects := effects wB @ [(CopyFileSync tgt bp, Some e)]\<rparr>)"
          by (simp add: copyFileSync_def log_def)
        have bk: "backupFile h tgt wA = (Inl e, wB\<lparr>effects := effects wB @ [(CopyFileSync tgt bp, Some e)]\<rparr>)"
          using x1 B Inr cp bp by (simp add: backupFile_def Let_def)
        then have "res = Inl e" "w' = wB\<lparr>effects := effects wB @ [(CopyFileSync tgt bp, Some e)]\<rparr>"
          using run2 by simp_all
        then have "res = Inl e \<and> io_fault h (CopyFileSync tgt bp) = Some e
                \<and> effects w' = effects w @ ?pre @ [(CopyFileSync tgt bp, Some e)]
                \<and> fs w' tgt = Some (File old)"
          using Some eP fB by simp
        then show ?thesis using dP by blast
      next
        case None
        let ?wC = "wB\<lparr>fs := (fs wB)(bp \<mapsto> File old), effects := effects wB @ [(CopyFileSync tgt bp, None)]\<rparr>"
        have cp: "copyFileSync h tgt bp wB = (Inr (), ?wC)"
          using None fB by (simp add: copyFileSync_def log_def)
        have bk: "backupFile h tgt wA = (Inr (Some bp), ?wC)"
          using x1 B Inr cp bp by (simp add: backupFile_def Let_def)
        have run3: "(case writeFileSync h tgt cnt ?wC of
                        (Inl e, w4) \<Rightarrow> (Inl e, w4)
                      | (Inr u', w4) \<Rightarrow>
                          (Inr (Result True (''File written. Backup saved to: '' @ bp)), w4)) = (res, w')"
          using run2 bk by (cases "writeFileSync h tgt cnt ?wC") (auto split: sum.splits)
        have fC: "fs ?wC tgt = Some (File old)" "fs ?wC bp = Some (File old)"
          using fB by simp_all
        have eC: "effects ?wC = effects w @ ?pre @ [(CopyFileSync tgt bp, None)]"
          using eP by simp
        obtain rW wW where W: "writeFileSync h tgt cnt ?wC = (rW, wW)" by force
        show ?thesis
        proof (cases rW)
          case (Inl e)
          then have rw: "res = Inl e" "w' = wW" using run3 W by simp_all
          have "effects wW = effects ?wC @ [(WriteFileSync tgt cnt, Some e)] \<and> fs wW = fs ?wC"
            using W Inl
            by (auto simp add: writeFileSync_def log_def split: option.splits node.splits)
          then have "res = Inl e \<and> io_fault h (CopyFileSync tgt bp) = None
                \<and> effects w' = effects w @ ?pre @ [(CopyFileSync tgt bp, None), (WriteFileSync tgt cnt, Some e)]
                \<and> fs w' tgt = Some (File old) \<and> fs w' bp = Some (File old)"
            using rw None eC fC by simp
          then show ?thesis using dP by blast
        next
          case (Inr u3)
          then have rw: "res = Inr (Result True (''File written. Backup saved to: '' @ bp))" "w' = wW"
            using run3 W by simp_all
          from W Inr obtain d where d: "cnt = Some d"
            and wW: "wW = ?wC\<lparr>fs := (fs ?wC)(tgt \<mapsto> File d),
                               effects := effects ?wC @ [(WriteFileSync tgt cnt, None)]\<rparr>"
            by (auto simp add: writeFileSync_def log_def split: option.splits node.splits)
          have "cnt = Some d \<and> res = Inr (Result True (''File written. Backup saved to: '' @ bp))
                \<and> io_fault h (CopyFileSync tgt bp) = None
                \<and> effects w' = effects w @ ?pre @ [(CopyFileSync tgt bp, None), (WriteFileSync tgt cnt, None)]
                \<and> fs w' tgt = Some (File d) \<and> (bp \<noteq> tgt \<longrightarrow> fs w' bp = Some (File old))"
            using rw d wW None eC fC by simp
          then show ?thesis using dP by blast
        qed
      qed
    qed
  qed
qed


text \<open>
  C2. A \<open>WRITE_FILE\<close> request whose resolved target exists as a file with bytes \<open>old\<close>. A write
  of the target is the last call made and the call just before it is the copy of the target to
  the backup path, which has succeeded: the backup holds \<open>old\<close>. When the machine makes the copy
  fail, the answer is \<open>success: false\<close> (the error of the copy, where the copy was reached), the
  target still holds \<open>old\<close> and no write of the target is among the calls made. A success answer
  names the backup path.
\<close>

theorem write_file_backup_first:
  assumes "rtype r = ''WRITE_FILE''"
    and "fs w (resolve_target h r) = Some (File old)"
  shows "case execute h r w of
           (resp, w') \<Rightarrow>
             (let tgt = resolve_target h r;
                  bp = path_join h (BACKUP_DIR h) (backupName tgt (now h));
                  new = new_effects w w'
              in ((\<exists>data err. (WriteFileSync tgt data, err) \<in> set new) \<longrightarrow>
                    (\<exists>pre err. new = pre @ [(CopyFileSync tgt bp, None), (WriteFileSync tgt (content r), err)]
                        \<and> (\<forall>y\<in>set pre. \<exists>q. fst y = ExistsSync q \<or> fst y = MkdirSync q))
                    \<and> (bp \<noteq> tgt \<longrightarrow> fs w' bp = Some (File old)))
                 \<and> (\<forall>e. io_fault h (CopyFileSync tgt bp) = Some e \<longrightarrow>
                        (\<exists>msg. resp = Result False msg) \<and> fs w' tgt = Some (File old)
                        \<and> (\<forall>data err. (WriteFileSync tgt data, err) \<notin> set new))
                 \<and> (\<forall>e. (CopyFileSync tgt bp, Some e) \<in> set new \<longrightarrow> resp = Result False (''Error: '' @ e))
                 \<and> ((\<exists>msg. resp = Result True msg) \<longrightarrow>
                        resp = Result True (''File written. Backup saved to: '' @ bp)
                        \<and> (CopyFileSync tgt bp, None) \<in> set new
                        \<and> (\<exists>d. content r = Some d \<and> fs w' tgt = Some (File d))
                        \<and> (bp \<noteq> tgt \<longrightarrow> fs w' bp = Some (File old))))"
proof -
  let ?tgt = "resolve_target h r"
  let ?bp = "path_join h (BACKUP_DIR h) (backupName ?tgt (now h))"
  have t: "execute_try h r w = write_file h ?tgt (content r) w"
    using assms(1) by (simp add: execute_try_def)
  show ?thesis
  proof (cases "isPathWritable (SAFE_WRITE_PATHS w) ?tgt")
    case False
    then show ?thesis
      using assms(2) by (simp add: execute_def t write_file_def new_effects_def)
  next
    case True
    obtain res w' where run: "write_file h ?tgt (content r) w = (res, w')" by force
    let ?D = "\<lambda>pre. \<forall>y\<in>set pre. \<exists>q. fst y = ExistsSync q \<or> fst y = MkdirSync q"
    from write_file_outcomes [OF True assms(2) run refl] obtain pre where dP: "?D pre"
      and outcomes: "(\<exists>e. res = Inl e \<and> effects w' = effects w @ pre \<and> fs w' ?tgt = Some (File old))
        \<or> (\<exists>e. res = Inl e \<and> io_fault h (CopyFileSync ?tgt ?bp) = Some e
                \<and> effects w' = effects w @ pre @ [(CopyFileSync ?tgt ?bp, Some e)]
                \<and> fs w' ?tgt = Some (File old))
        \<or> (\<exists>e. res = Inl e \<and> io_fault h (CopyFileSync ?tgt ?bp) = None
                \<and> effects w' = effects w @ pre @ [(CopyFileSync ?tgt ?bp, None), (WriteFileSync ?tgt (content r), Some e)]
                \<and> fs w' ?tgt = Some (File old) \<and> fs w' ?bp = Some (File old))
        \<or> (\<exists>d. content r = Some d \<and> res = Inr (Result True (''File written. Backup saved to: '' @ ?bp))
                \<and> io_fault h (CopyFileSync ?tgt ?bp) = None
                \<and> effects w' = effects w @ pre @ [(CopyFileSync ?tgt ?bp, None), (WriteFileSync ?tgt (content r), None)]
                \<and> fs w' ?tgt = Some (File d) \<and> (?bp \<noteq> ?tgt \<longrightarrow> fs w' ?bp = Some (File old)))"
      by blast
    have nw: "\<And>data err. (WriteFileSync ?tgt data, err) \<notin> set pre"
      and nc: "\<And>err. (CopyFileSync ?tgt ?bp, err) \<notin> set pre"
      using dP by force+
    from outcomes consider
        (dir) e where "res = Inl e" "effects w' = effects w @ pre" "fs w' ?tgt = Some (File old)"
      | (copy) e where "res = Inl e" "io_fault h (CopyFileSync ?tgt ?bp) = Some e"
          "effects w' = effects w @ pre @ [(CopyFileSync ?tgt ?bp, Some e)]" "fs w' ?tgt = Some (File old)"
      | (wfail) e where "res = Inl e" "io_fault h (CopyFileSync ?tgt ?bp) = None"
          "effects w' = effects w @ pre @ [(CopyFileSync ?tgt ?bp, None), (WriteFileSync ?tgt (content r), Some e)]"
          "fs w' ?tgt = Some (File old)" "fs w' ?bp = Some (File old)"
      | (ok) d where "content r = Some d" "res = Inr (Result True (''File written. Backup saved to: '' @ ?bp))"
          "io_fault h (CopyFileSync ?tgt ?bp) = None"
          "effects w' = effects w @ pre @ [(CopyFileSync ?tgt ?bp, None), (WriteFileSync ?tgt (content r), None)]"
          "fs w' ?tgt = Some (File d)" "?bp \<noteq> ?tgt \<longrightarrow> fs w' ?bp = Some (File old)"
      by blast
    then show ?thesis
    proof cases
      case dir
      then have "new_effects w w' = pre" by (simp add: new_effects_def)
      then show ?thesis
        using dir nw nc unfolding execute_def t run Let_def by simp
    next
      case copy
      then have "new_effects w w' = pre @ [(CopyFileSync ?tgt ?bp, Some e)]" by (simp add: new_effects_def)
      then show ?thesis
        using copy nw nc unfolding execute_def t run Let_def by simp
    next
      case wfail
      then have "new_effects w w' = pre @ [(CopyFileSync ?tgt ?bp, None), (WriteFileSync ?tgt (content r), Some e)]"
        by (simp add: new_effects_def)
      then show ?thesis
        using wfail nw nc dP unfolding execute_def t run Let_def by auto
    next
      case ok
      then have "new_effects w w' = pre @ [(CopyFileSync ?tgt ?bp, None), (WriteFileSync ?tgt (content r), None)]"
        by (simp add: new_effects_def)
      then show ?thesis
        using ok nw nc dP unfolding execute_def t run Let_def by auto
    qed
  qed
qed


lemma demo_backupName:
  "backupName ''/tmp/x.txt'' demo_now = ''__tmp__x.txt.2026-11-03T01-02-03-045Z.bak''"
  by code_simp

lemma demo_write_ok:
  "\<exists>w'. execute demo_host \<lparr>rtype = ''WRITE_FILE'', target = ''/tmp/x.txt'', content = Some ''abc''\<rparr> demo_world =
     (Result True (''File written. Backup saved to: '' @ ''/srv/middleclaw/.middleclaw-backups/__tmp__x.txt.2026-11-03T01-02-03-045Z.bak''), w')"
proof -
  let ?r = "\<lparr>rtype = ''WRITE_FILE'', target = ''/tmp/x.txt'', content = Some ''abc''\<rparr>"
  let ?bp = "''/srv/middleclaw/.middleclaw-backups/__tmp__x.txt.2026-11-03T01-02-03-045Z.bak''"
  have t2: "resolve_target demo_host ?r = ''/tmp/x.txt''"
    by (simp add: resolve_target_def startsWith_def)
  have hf: "path_dirname demo_host ''/tmp/x.txt'' = ''/tmp''"
    "BACKUP_DIR demo_host = ''/srv/middleclaw/.middleclaw-backups''"
    "\<And>c. io_fault demo_host c = None"
    by (simp_all add: demo_host_def demo_dirname_def)
  have wf: "SAFE_WRITE_PATHS demo_world = [''/tmp/'']" "fs demo_world ''/tmp'' = Some Dir"
    "fs demo_world ''/srv/middleclaw/.middleclaw-backups'' = None"
    "fs demo_world ''/tmp/x.txt'' = Some (File ''old'')"
    by (simp_all add: demo_world_def)
  have bp3: "path_join demo_host ''/srv/middleclaw/.middleclaw-backups''
               (backupName ''/tmp/x.txt'' (now demo_host)) = ?bp"
    by (simp add: demo_host_def demo_join_def demo_backupName)
  have wr: "isPathWritable (SAFE_WRITE_PATHS demo_world) ''/tmp/x.txt''"
    by (simp add: wf isPathWritable_def startsWith_def)
  have e1: "ensure_dir demo_host ''/tmp'' demo_world
              = (Inr (), demo_world\<lparr>effects := effects demo_world @ [(ExistsSync ''/tmp'', None)]\<rparr>)"
    by (simp add: ensure_dir_cases wf)
  let ?w1 = "demo_world\<lparr>effects := effects demo_world @ [(ExistsSync ''/tmp'', None)]\<rparr>"
  have bk: "\<exists>w3. backupFile demo_host ''/tmp/x.txt'' ?w1 = (Inr (Some ?bp), w3)
                \<and> fs w3 ''/tmp/x.txt'' = Some (File ''old'')"
    by (simp add: backupFile_def existsSync_def log_def ensure_dir_cases wf hf bp3 copyFileSync_def Let_def)
  then obtain w3 where b3: "backupFile demo_host ''/tmp/x.txt'' ?w1 = (Inr (Some ?bp), w3)"
    and f3: "fs w3 ''/tmp/x.txt'' = Some (File ''old'')" by blast
  have wrt: "\<exists>w4. writeFileSync demo_host ''/tmp/x.txt'' (Some ''abc'') w3 = (Inr (), w4)"
    by (simp add: writeFileSync_def hf f3)
  then obtain w4 where w4: "writeFileSync demo_host ''/tmp/x.txt'' (Some ''abc'') w3 = (Inr (), w4)" by blast
  have "write_file demo_host ''/tmp/x.txt'' (Some ''abc'') demo_world
          = (Inr (Result True (''File written. Backup saved to: '' @ ?bp)), w4)"
    by (simp add: write_file_def wr hf e1 b3 w4)
  then show ?thesis
    by (simp add: execute_def execute_try_def t2 Let_def)
qed


theorem write_file_backup_first_witness:
  "fs demo_world ''/tmp/x.txt'' = Some (File ''old'')
   \<and> (case execute full_disk_host \<lparr>rtype = ''WRITE_FILE'', target = ''/tmp/x.txt'', content = Some ''abc''\<rparr>
              demo_world of
         (resp, w') \<Rightarrow>
           (\<exists>msg. resp = Result False msg) \<and> fs w' ''/tmp/x.txt'' = Some (File ''old'')
           \<and> (\<forall>data err. (WriteFileSync ''/tmp/x.txt'' data, err) \<notin> set (new_effects demo_world w')))
   \<and> (case execute demo_host \<lparr>rtype = ''WRITE_FILE'', target = ''/tmp/x.txt'', content = Some ''abc''\<rparr>
              demo_world of
         (resp, w') \<Rightarrow>
           resp = Result True
             (''File written. Backup saved to: ''
                @ ''/srv/middleclaw/.middleclaw-backups/__tmp__x.txt.2026-11-03T01-02-03-045Z.bak'')
           \<and> fs w' ''/srv/middleclaw/.middleclaw-backups/__tmp__x.txt.2026-11-03T01-02-03-045Z.bak''
               = Some (File ''old'')
           \<and> fs w' ''/tmp/x.txt'' = Some (File ''abc''))"
proof -
  let ?r = "\<lparr>rtype = ''WRITE_FILE'', target = ''/tmp/x.txt'', content = Some ''abc''\<rparr>"
  let ?bp = "''/srv/middleclaw/.middleclaw-backups/__tmp__x.txt.2026-11-03T01-02-03-045Z.bak''"
  have ex: "fs demo_world ''/tmp/x.txt'' = Some (File ''old'')"
    by (simp add: demo_world_def)
  have t1: "resolve_target full_disk_host ?r = ''/tmp/x.txt''"
    and t2: "resolve_target demo_host ?r = ''/tmp/x.txt''"
    by (simp_all add: resolve_target_def startsWith_def)
  have bp1: "path_join full_disk_host (BACKUP_DIR full_disk_host) (backupName ''/tmp/x.txt'' (now full_disk_host)) = ?bp"
    by (simp add: full_disk_host_def demo_host_def demo_join_def demo_backupName)
  have bp2: "path_join demo_host (BACKUP_DIR demo_host) (backupName ''/tmp/x.txt'' (now demo_host)) = ?bp"
    by (simp add: demo_host_def demo_join_def demo_backupName)
  have fault: "io_fault full_disk_host (CopyFileSync ''/tmp/x.txt'' ?bp) = Some ''ENOSPC: no space left on device, copyfile''"
    by (simp add: full_disk_host_def demo_host_def)
  obtain resp1 w1 where x1: "execute full_disk_host ?r demo_world = (resp1, w1)" by force
  have a: "(\<exists>msg. resp1 = Result False msg) \<and> fs w1 ''/tmp/x.txt'' = Some (File ''old'')
           \<and> (\<forall>data err. (WriteFileSync ''/tmp/x.txt'' data, err) \<notin> set (new_effects demo_world w1))"
    using write_file_backup_first [where r = "?r" and w = demo_world and h = full_disk_host and old = "''old''"]
      ex fault
    unfolding x1 t1 bp1 Let_def by simp
  obtain w2 where x2: "execute demo_host ?r demo_world = (Result True (''File written. Backup saved to: '' @ ?bp), w2)"
    using demo_write_ok by blast
  have neq: "?bp \<noteq> ''/tmp/x.txt''" by simp
  have b: "fs w2 ?bp = Some (File ''old'') \<and> fs w2 ''/tmp/x.txt'' = Some (File ''abc'')"
    using write_file_backup_first [where r = "?r" and w = demo_world and h = demo_host and old = "''old''"]
      ex neq
    unfolding x2 t2 bp2 Let_def by simp
  show ?thesis using ex a b unfolding x1 x2 by simp
qed

subsection \<open>Backup names\<close>


lemma length_pad [simp]: "length (pad k n) = k"
  by (induction k arbitrary: n) auto

lemma digit_inj: "a < 10 \<Longrightarrow> b < 10 \<Longrightarrow> digit a = digit b \<longleftrightarrow> a = b"
proof -
  assume "a < 10" "b < 10"
  then have "a \<in> {0,1,2,3,4,5,6,7,8,9}" "b \<in> {0,1,2,3,4,5,6,7,8,9}" by auto
  then show ?thesis by (auto simp: digit_def)
qed

lemma digit_less: "a < 10 \<Longrightarrow> b < 10 \<Longrightarrow> digit a < digit b \<longleftrightarrow> a < b"
proof -
  assume "a < 10" "b < 10"
  then have "a \<in> {0,1,2,3,4,5,6,7,8,9}" "b \<in> {0,1,2,3,4,5,6,7,8,9}" by auto
  then show ?thesis by (auto simp: digit_def)
qed

lemma digit_mod: "digit n = digit (n mod 10)"
  by (simp add: digit_def)


lemma pad_inj: "a < 10 ^ k \<Longrightarrow> b < 10 ^ k \<Longrightarrow> pad k a = pad k b \<longleftrightarrow> a = b"
proof (induction k arbitrary: a b)
  case 0
  then show ?case by simp
next
  case (Suc k)
  have d: "a div 10 < 10 ^ k" "b div 10 < 10 ^ k"
    using Suc.prems by (simp_all add: less_mult_imp_div_less mult.commute)
  have "pad (Suc k) a = pad (Suc k) b \<longleftrightarrow> pad k (a div 10) = pad k (b div 10) \<and> digit a = digit b"
    by simp
  also have "\<dots> \<longleftrightarrow> a div 10 = b div 10 \<and> a mod 10 = b mod 10"
    using Suc.IH [OF d] digit_inj [of "a mod 10" "b mod 10"] digit_mod [of a] digit_mod [of b] by simp
  also have "\<dots> \<longleftrightarrow> a = b"
    by (metis div_mult_mod_eq)
  finally show ?case .
qed

lemma less_append_same_length:
  fixes a b :: string
  shows "length a = length b \<Longrightarrow> (a @ x < b @ y) \<longleftrightarrow> (a < b \<or> (a = b \<and> x < y))"
  by (induction a b rule: list_induct2) auto

lemma pad_less: "a < 10 ^ k \<Longrightarrow> b < 10 ^ k \<Longrightarrow> pad k a < pad k b \<longleftrightarrow> a < b"
proof (induction k arbitrary: a b)
  case 0
  then show ?case by simp
next
  case (Suc k)
  have d: "a div 10 < 10 ^ k" "b div 10 < 10 ^ k"
    using Suc.prems by (simp_all add: less_mult_imp_div_less mult.commute)
  have "pad (Suc k) a < pad (Suc k) b \<longleftrightarrow>
          pad k (a div 10) < pad k (b div 10) \<or> (pad k (a div 10) = pad k (b div 10) \<and> digit a < digit b)"
    by (simp add: less_append_same_length)
  also have "\<dots> \<longleftrightarrow> a div 10 < b div 10 \<or> (a div 10 = b div 10 \<and> a mod 10 < b mod 10)"
    using Suc.IH [OF d] pad_inj [OF d] digit_less [of "a mod 10" "b mod 10"] digit_mod [of a] digit_mod [of b]
    by simp
  also have "\<dots> \<longleftrightarrow> a < b"
  proof -
    have "a = 10 * (a div 10) + a mod 10" "b = 10 * (b div 10) + b mod 10" by simp_all
    moreover have "a mod 10 < 10" "b mod 10 < 10" by simp_all
    ultimately show ?thesis by linarith
  qed
  finally show ?case .
qed


lemma replace_all_append: "replace_all P b (x @ y) = replace_all P b x @ replace_all P b y"
  by (simp add: replace_all_def)

lemma replace_all_id: "(\<forall>c\<in>set s. \<not> P c) \<Longrightarrow> replace_all P b s = s"
  by (induction s) (auto simp: replace_all_def)

lemma digit_in: "digit n \<in> set ''0123456789''"
proof -
  have "n mod 10 \<in> {0,1,2,3,4,5,6,7,8,9}" by (simp; presburger)
  then show ?thesis by (auto simp: digit_def)
qed

lemma set_pad: "set (pad k n) \<subseteq> set ''0123456789''"
proof (induction k arbitrary: n)
  case 0
  then show ?case by simp
next
  case (Suc k)
  then show ?case using digit_in [of n] by auto
qed

lemma replace_pad: "replace_all (\<lambda>c. c = CHR '':'' \<or> c = CHR ''.'') b (pad k n) = pad k n"
proof (rule replace_all_id)
  show "\<forall>c\<in>set (pad k n). \<not> (c = CHR '':'' \<or> c = CHR ''.'')"
    using set_pad [of k n] by auto
qed

lemma backup_timestamp_eq:
  "year t \<le> 9999 \<Longrightarrow>
   backup_timestamp t =
     pad 4 (year t) @ ''-'' @ pad 2 (month t) @ ''-'' @ pad 2 (day t)
       @ ''T'' @ pad 2 (hour t) @ ''-'' @ pad 2 (minute t) @ ''-'' @ pad 2 (second t)
       @ ''-'' @ pad 3 (millis t) @ ''Z''"
  unfolding backup_timestamp_def toISOString_def
  by (simp only: replace_all_append replace_pad if_True) (simp add: replace_all_def)

lemma length_backup_timestamp: "year t \<le> 9999 \<Longrightarrow> length (backup_timestamp t) = 24"
  by (simp add: backup_timestamp_eq)

lemma same_head_less:
  fixes a :: string
  shows "(a @ x < a @ y) \<longleftrightarrow> x < y"
  by (simp add: less_append_same_length)

lemma backup_timestamp_less:
  assumes "valid_timestamp a" and "valid_timestamp b"
  shows "backup_timestamp a < backup_timestamp b \<longleftrightarrow> earlier a b"
proof -
  have ya: "year a < 10 ^ 4" "month a < 10 ^ 2" "day a < 10 ^ 2" "hour a < 10 ^ 2" "minute a < 10 ^ 2"
    "second a < 10 ^ 2" "millis a < 10 ^ 3"
    using assms(1) by (simp_all add: valid_timestamp_def)
  have yb: "year b < 10 ^ 4" "month b < 10 ^ 2" "day b < 10 ^ 2" "hour b < 10 ^ 2" "minute b < 10 ^ 2"
    "second b < 10 ^ 2" "millis b < 10 ^ 3"
    using assms(2) by (simp_all add: valid_timestamp_def)
  have le: "year a \<le> 9999" "year b \<le> 9999"
    using assms by (simp_all add: valid_timestamp_def)
  show ?thesis
    unfolding backup_timestamp_eq [OF le(1)] backup_timestamp_eq [OF le(2)] earlier_def
    by (simp only: less_append_same_length length_pad same_head_less
        pad_less [OF ya(1) yb(1)] pad_less [OF ya(2) yb(2)] pad_less [OF ya(3) yb(3)]
        pad_less [OF ya(4) yb(4)] pad_less [OF ya(5) yb(5)] pad_less [OF ya(6) yb(6)]
        pad_less [OF ya(7) yb(7)]
        pad_inj [OF ya(1) yb(1)] pad_inj [OF ya(2) yb(2)] pad_inj [OF ya(3) yb(3)]
        pad_inj [OF ya(4) yb(4)] pad_inj [OF ya(5) yb(5)] pad_inj [OF ya(6) yb(6)]
        pad_inj [OF ya(7) yb(7)])
      (auto simp add: less_prod_def)
qed

lemma backup_timestamp_inj:
  assumes "valid_timestamp a" and "valid_timestamp b"
  shows "backup_timestamp a = backup_timestamp b \<longleftrightarrow> a = b"
proof -
  have ya: "year a < 10 ^ 4" "month a < 10 ^ 2" "day a < 10 ^ 2" "hour a < 10 ^ 2" "minute a < 10 ^ 2"
    "second a < 10 ^ 2" "millis a < 10 ^ 3"
    using assms(1) by (simp_all add: valid_timestamp_def)
  have yb: "year b < 10 ^ 4" "month b < 10 ^ 2" "day b < 10 ^ 2" "hour b < 10 ^ 2" "minute b < 10 ^ 2"
    "second b < 10 ^ 2" "millis b < 10 ^ 3"
    using assms(2) by (simp_all add: valid_timestamp_def)
  have le: "year a \<le> 9999" "year b \<le> 9999"
    using assms by (simp_all add: valid_timestamp_def)
  show ?thesis
    unfolding backup_timestamp_eq [OF le(1)] backup_timestamp_eq [OF le(2)]
    by (simp add: pad_inj [OF ya(1) yb(1)] pad_inj [OF ya(2) yb(2)] pad_inj [OF ya(3) yb(3)]
        pad_inj [OF ya(4) yb(4)] pad_inj [OF ya(5) yb(5)] pad_inj [OF ya(6) yb(6)]
        pad_inj [OF ya(7) yb(7)]) (auto simp add: timestamp.equality)
qed


lemma demo_write_steps:
  assumes sw: "SAFE_WRITE_PATHS w = [''/tmp/'']"
    and ft: "fs w ''/tmp'' = Some Dir"
    and fx: "fs w ''/tmp/x.txt'' = Some (File old)"
    and fb: "fs w ''/srv/middleclaw/.middleclaw-backups'' = None \<or> fs w ''/srv/middleclaw/.middleclaw-backups'' = Some Dir"
  shows "\<exists>w'. execute demo_host \<lparr>rtype = ''WRITE_FILE'', target = ''/tmp/x.txt'', content = Some d\<rparr> w =
              (Result True (''File written. Backup saved to: '' @ demo_backup_path), w')
            \<and> fs w' demo_backup_path = Some (File old) \<and> fs w' ''/tmp/x.txt'' = Some (File d)
            \<and> SAFE_WRITE_PATHS w' = [''/tmp/''] \<and> fs w' ''/tmp'' = Some Dir
            \<and> fs w' ''/srv/middleclaw/.middleclaw-backups'' = Some Dir"
proof -
  let ?r = "\<lparr>rtype = ''WRITE_FILE'', target = ''/tmp/x.txt'', content = Some d\<rparr>"
  let ?bd = "''/srv/middleclaw/.middleclaw-backups''"
  have t2: "resolve_target demo_host ?r = ''/tmp/x.txt''"
    by (simp add: resolve_target_def startsWith_def)
  have hf: "path_dirname demo_host ''/tmp/x.txt'' = ''/tmp''" "BACKUP_DIR demo_host = ?bd"
    "\<And>c. io_fault demo_host c = None"
    by (simp_all add: demo_host_def demo_dirname_def)
  have nm: "backupName ''/tmp/x.txt'' demo_now = ''__tmp__x.txt.2026-11-03T01-02-03-045Z.bak''"
    by code_simp
  have bp3: "path_join demo_host ?bd (backupName ''/tmp/x.txt'' (now demo_host)) = demo_backup_path"
    by (simp add: demo_host_def demo_join_def nm demo_backup_path_def)
  have ne: "demo_backup_path \<noteq> ''/tmp/x.txt''" "demo_backup_path \<noteq> ''/tmp''" "demo_backup_path \<noteq> ?bd"
    "?bd \<noteq> ''/tmp/x.txt''" "?bd \<noteq> ''/tmp''"
    by (simp_all add: demo_backup_path_def)
  have wr: "isPathWritable (SAFE_WRITE_PATHS w) ''/tmp/x.txt''"
    by (simp add: sw isPathWritable_def startsWith_def)
  let ?w1 = "w\<lparr>effects := effects w @ [(ExistsSync ''/tmp'', None)]\<rparr>"
  have e1: "ensure_dir demo_host ''/tmp'' w = (Inr (), ?w1)"
    by (simp add: ensure_dir_cases ft)
  let ?w2 = "?w1\<lparr>effects := effects ?w1 @ [(ExistsSync ''/tmp/x.txt'', None)]\<rparr>"
  have x2: "existsSync ''/tmp/x.txt'' ?w1 = (True, ?w2)"
    by (simp add: existsSync_def log_def fx)
  obtain w3 where e3: "ensure_dir demo_host ?bd ?w2 = (Inr (), w3)"
    and f3: "fs w3 = (fs w)(?bd \<mapsto> Dir)" and s3: "SAFE_WRITE_PATHS w3 = [''/tmp/'']"
    using fb
  proof
    assume n: "fs w ?bd = None"
    show ?thesis
      by (rule that [of "?w2\<lparr>fs := (fs ?w2)(?bd \<mapsto> Dir),
                               effects := effects ?w2 @ [(ExistsSync ?bd, None), (MkdirSync ?bd, None)]\<rparr>"])
        (simp_all add: ensure_dir_cases n hf sw)
  next
    assume y: "fs w ?bd = Some Dir"
    show ?thesis
      by (rule that [of "?w2\<lparr>effects := effects ?w2 @ [(ExistsSync ?bd, None)]\<rparr>"])
        (auto simp add: ensure_dir_cases y sw)
  qed
  let ?w4 = "w3\<lparr>fs := (fs w3)(demo_backup_path \<mapsto> File old),
                  effects := effects w3 @ [(CopyFileSync ''/tmp/x.txt'' demo_backup_path, None)]\<rparr>"
  have c4: "copyFileSync demo_host ''/tmp/x.txt'' demo_backup_path w3 = (Inr (), ?w4)"
    using ne by (simp add: copyFileSync_def log_def hf f3 fx)
  have b4: "backupFile demo_host ''/tmp/x.txt'' ?w1 = (Inr (Some demo_backup_path), ?w4)"
    by (simp only: backupFile_def x2 prod.case bool.case hf e3 sum.case bp3 c4 Let_def)
  let ?w5 = "?w4\<lparr>fs := (fs ?w4)(''/tmp/x.txt'' \<mapsto> File d),
                   effects := effects ?w4 @ [(WriteFileSync ''/tmp/x.txt'' (Some d), None)]\<rparr>"
  have w5: "writeFileSync demo_host ''/tmp/x.txt'' (Some d) ?w4 = (Inr (), ?w5)"
    using ne by (simp add: writeFileSync_def log_def hf f3 fx)
  have "write_file demo_host ''/tmp/x.txt'' (Some d) w
          = (Inr (Result True (''File written. Backup saved to: '' @ demo_backup_path)), ?w5)"
    by (simp only: write_file_def wr not_True_eq_False if_False hf e1 prod.case sum.case b4 w5 option.case)
  then have "execute demo_host ?r w = (Result True (''File written. Backup saved to: '' @ demo_backup_path), ?w5)"
    by (simp add: execute_def execute_try_def t2 Let_def)
  moreover have "fs ?w5 demo_backup_path = Some (File old) \<and> fs ?w5 ''/tmp/x.txt'' = Some (File d)
            \<and> SAFE_WRITE_PATHS ?w5 = [''/tmp/''] \<and> fs ?w5 ''/tmp'' = Some Dir \<and> fs ?w5 ?bd = Some Dir"
    using ne by (simp add: f3 s3 ft)
  ultimately show ?thesis by blast
qed


lemma backupFile_missing:
  "fs w path = None \<Longrightarrow> \<exists>w'. backupFile h path w = (Inr None, w')"
  by (simp add: backupFile_def existsSync_def)

lemma backupFile_present:
  assumes ex: "fs w path = Some x" and run: "backupFile h path w = (res, w')"
  shows "res \<noteq> Inr None
         \<and> (\<forall>b. res = Inr (Some b) \<longrightarrow>
                b = path_join h (BACKUP_DIR h) (backupName path (now h)) \<and> fs w' b = Some x)"
proof -
  let ?w1 = "w\<lparr>effects := effects w @ [(ExistsSync path, None)]\<rparr>"
  let ?bp = "path_join h (BACKUP_DIR h) (backupName path (now h))"
  have x1: "existsSync path w = (True, ?w1)"
    using ex by (simp add: existsSync_def log_def)
  have f1: "fs ?w1 path = Some x" using ex by simp
  obtain rB wB where B: "ensure_dir h (BACKUP_DIR h) ?w1 = (rB, wB)" by force
  from ensure_dir_keeps [OF f1 B] have fB: "fs wB path = Some x" by blast
  show ?thesis
  proof (cases rB)
    case (Inl e)
    then have "res = Inl e"
      using run by (simp only: backupFile_def x1 prod.case bool.case B sum.case prod.inject)
    then show ?thesis by simp
  next
    case (Inr u)
    obtain rC wC where C: "copyFileSync h path ?bp wB = (rC, wC)" by force
    have r: "(case rC of Inl e \<Rightarrow> (Inl e, wC) | Inr u' \<Rightarrow> (Inr (Some ?bp), wC)) = (res, w')"
      using run Inr
      by (simp only: backupFile_def x1 prod.case bool.case B sum.case Let_def C)
    have c: "rC = Inr () \<longrightarrow> fs wC ?bp = Some x"
      using C fB by (auto simp add: copyFileSync_def log_def split: option.splits node.splits)
    show ?thesis using r c by (cases rC) auto
  qed
qed

text \<open>
  C4, as amended. \<open>backupFile\<close> returns \<open>null\<close> exactly when the path does not exist; a returned
  path is the backup directory joined with the backup name, and holds the bytes of the file.
  The name is the path with every \<open>/\<close> replaced by \<open>__\<close>, a dot, the ISO timestamp of the clock
  (to the millisecond) with \<open>:\<close> and \<open>.\<close> replaced by \<open>-\<close>, and \<open>.bak\<close>. For dates with a year of
  four digits, two names are equal exactly when the escaped paths are equal and the clock
  readings are the same millisecond; and the names of one path sort, as strings, in the order of
  their dates.
\<close>

theorem backup_names:
  "((\<exists>w'. backupFile h path w = (Inr None, w')) \<longleftrightarrow> fs w path = None)
   \<and> (\<forall>b w'. backupFile h path w = (Inr (Some b), w') \<longrightarrow>
          b = path_join h (BACKUP_DIR h) (backupName path (now h)) \<and> fs w' b = fs w path)
   \<and> (year t \<le> 9999 \<longrightarrow>
          backupName path t =
            concat (map (\<lambda>c. if c = CHR ''/'' then ''__'' else [c]) path) @ ''.''
              @ pad 4 (year t) @ ''-'' @ pad 2 (month t) @ ''-'' @ pad 2 (day t)
              @ ''T'' @ pad 2 (hour t) @ ''-'' @ pad 2 (minute t) @ ''-'' @ pad 2 (second t)
              @ ''-'' @ pad 3 (millis t) @ ''Z'' @ ''.bak'')
   \<and> (valid_timestamp t1 \<and> valid_timestamp t2 \<longrightarrow>
          (backupName p1 t1 = backupName p2 t2 \<longleftrightarrow>
             replace_all (\<lambda>c. c = CHR ''/'') ''__'' p1 = replace_all (\<lambda>c. c = CHR ''/'') ''__'' p2 \<and> t1 = t2))
   \<and> (valid_timestamp t1 \<and> valid_timestamp t2 \<and> earlier t1 t2 \<longrightarrow>
          backupName path t1 < backupName path t2)"
proof -
  have a: "(\<exists>w'. backupFile h path w = (Inr None, w')) \<longleftrightarrow> fs w path = None"
  proof
    assume "\<exists>w'. backupFile h path w = (Inr None, w')"
    then obtain w' where r: "backupFile h path w = (Inr None, w')" by blast
    show "fs w path = None"
    proof (rule ccontr)
      assume "fs w path \<noteq> None"
      then obtain x where "fs w path = Some x" by blast
      from backupFile_present [OF this r] show False by simp
    qed
  next
    assume "fs w path = None"
    then show "\<exists>w'. backupFile h path w = (Inr None, w')" by (rule backupFile_missing)
  qed
  have b: "\<forall>b w'. backupFile h path w = (Inr (Some b), w') \<longrightarrow>
          b = path_join h (BACKUP_DIR h) (backupName path (now h)) \<and> fs w' b = fs w path"
  proof (intro allI impI)
    fix b w'
    assume r: "backupFile h path w = (Inr (Some b), w')"
    have "fs w path \<noteq> None"
    proof
      assume "fs w path = None"
      from backupFile_missing [OF this, of h] r show False by auto
    qed
    then obtain x where x: "fs w path = Some x" by blast
    from backupFile_present [OF x r] x
    show "b = path_join h (BACKUP_DIR h) (backupName path (now h)) \<and> fs w' b = fs w path" by auto
  qed
  have c: "year t \<le> 9999 \<longrightarrow>
          backupName path t =
            concat (map (\<lambda>c. if c = CHR ''/'' then ''__'' else [c]) path) @ ''.''
              @ pad 4 (year t) @ ''-'' @ pad 2 (month t) @ ''-'' @ pad 2 (day t)
              @ ''T'' @ pad 2 (hour t) @ ''-'' @ pad 2 (minute t) @ ''-'' @ pad 2 (second t)
              @ ''-'' @ pad 3 (millis t) @ ''Z'' @ ''.bak''"
    by (simp add: backupName_def backup_timestamp_eq replace_all_def)
  have d: "valid_timestamp t1 \<and> valid_timestamp t2 \<longrightarrow>
          (backupName p1 t1 = backupName p2 t2 \<longleftrightarrow>
             replace_all (\<lambda>c. c = CHR ''/'') ''__'' p1 = replace_all (\<lambda>c. c = CHR ''/'') ''__'' p2 \<and> t1 = t2)"
  proof
    assume v: "valid_timestamp t1 \<and> valid_timestamp t2"
    then have le: "year t1 \<le> 9999" "year t2 \<le> 9999" by (simp_all add: valid_timestamp_def)
    have len: "length (''.'' @ backup_timestamp t1 @ ''.bak'') = length (''.'' @ backup_timestamp t2 @ ''.bak'')"
      using le by (simp add: length_backup_timestamp)
    have "backupName p1 t1 = backupName p2 t2 \<longleftrightarrow>
            replace_all (\<lambda>c. c = CHR ''/'') ''__'' p1 = replace_all (\<lambda>c. c = CHR ''/'') ''__'' p2
            \<and> ''.'' @ backup_timestamp t1 @ ''.bak'' = ''.'' @ backup_timestamp t2 @ ''.bak''"
      unfolding backupName_def using append_eq_append_conv [OF disjI2 [OF len]] by blast
    also have "\<dots> \<longleftrightarrow>
            replace_all (\<lambda>c. c = CHR ''/'') ''__'' p1 = replace_all (\<lambda>c. c = CHR ''/'') ''__'' p2 \<and> t1 = t2"
      using backup_timestamp_inj [of t1 t2] v by simp
    finally show "backupName p1 t1 = backupName p2 t2 \<longleftrightarrow>
            replace_all (\<lambda>c. c = CHR ''/'') ''__'' p1 = replace_all (\<lambda>c. c = CHR ''/'') ''__'' p2 \<and> t1 = t2" .
  qed
  have e: "valid_timestamp t1 \<and> valid_timestamp t2 \<and> earlier t1 t2 \<longrightarrow>
          backupName path t1 < backupName path t2"
  proof
    assume v: "valid_timestamp t1 \<and> valid_timestamp t2 \<and> earlier t1 t2"
    then have le: "year t1 \<le> 9999" "year t2 \<le> 9999" by (simp_all add: valid_timestamp_def)
    have len: "length (backup_timestamp t1) = length (backup_timestamp t2)"
      using le by (simp add: length_backup_timestamp)
    have "backup_timestamp t1 < backup_timestamp t2"
      using backup_timestamp_less [of t1 t2] v by simp
    then have "backup_timestamp t1 @ ''.bak'' < backup_timestamp t2 @ ''.bak''"
      using less_append_same_length [OF len] by blast
    then show "backupName path t1 < backupName path t2"
      unfolding backupName_def by (simp add: same_head_less)
  qed
  show ?thesis
    by (intro conjI) (fact a, fact b, fact c, fact d, fact e)
qed


theorem backup_names_witness:
  "valid_timestamp demo_now \<and> valid_timestamp (demo_now\<lparr>millis := 46\<rparr>)
   \<and> earlier demo_now (demo_now\<lparr>millis := 46\<rparr>)
   \<and> backupName ''/tmp/x.txt'' demo_now < backupName ''/tmp/x.txt'' (demo_now\<lparr>millis := 46\<rparr>)
   \<and> backupName ''/tmp/x.txt'' demo_now \<noteq> backupName ''/tmp/x.txt'' (demo_now\<lparr>millis := 46\<rparr>)
   \<and> year demo_now \<le> 9999
   \<and> backupName ''/tmp/x.txt'' demo_now = ''__tmp__x.txt.2026-11-03T01-02-03-045Z.bak''"
proof -
  have v: "valid_timestamp demo_now" "valid_timestamp (demo_now\<lparr>millis := 46\<rparr>)"
    by (simp_all add: valid_timestamp_def demo_now_def)
  have e: "earlier demo_now (demo_now\<lparr>millis := 46\<rparr>)"
    by (simp add: earlier_def demo_now_def less_prod_def)
  have n: "demo_now \<noteq> demo_now\<lparr>millis := 46\<rparr>"
    by (simp add: demo_now_def)
  have y: "year demo_now \<le> 9999"
    by (simp add: demo_now_def)
  note th = backup_names [where path = "''/tmp/x.txt''" and ?p1.0 = "''/tmp/x.txt''" and ?p2.0 = "''/tmp/x.txt''"
      and ?t1.0 = demo_now and ?t2.0 = "demo_now\<lparr>millis := 46\<rparr>" and t = demo_now]
  have lt: "backupName ''/tmp/x.txt'' demo_now < backupName ''/tmp/x.txt'' (demo_now\<lparr>millis := 46\<rparr>)"
    using th v e by blast
  have ne: "backupName ''/tmp/x.txt'' demo_now \<noteq> backupName ''/tmp/x.txt'' (demo_now\<lparr>millis := 46\<rparr>)"
    using th v n by blast
  have nm: "backupName ''/tmp/x.txt'' demo_now = ''__tmp__x.txt.2026-11-03T01-02-03-045Z.bak''"
    by code_simp
  show ?thesis using v e lt ne y nm by simp
qed

text \<open>
  C4, as stated, fails: names are not unique per invocation. Two \<open>WRITE_FILE\<close> requests for
  \<open>/tmp/x.txt\<close> handled at the same clock reading are both answered with the same backup path;
  after the first the backup holds the original bytes \<open>old\<close>, after the second it holds \<open>abc\<close>, and
  the original bytes are in no backup. And the different paths \<open>/a/b\<close> and \<open>/a__b\<close> have the same
  backup name at the same clock reading.
\<close>

theorem backups_collide:
  "fst (execute demo_host \<lparr>rtype = ''WRITE_FILE'', target = ''/tmp/x.txt'', content = Some ''abc''\<rparr> demo_world)
     = Result True (''File written. Backup saved to: '' @ demo_backup_path)
   \<and> fs (snd (execute demo_host \<lparr>rtype = ''WRITE_FILE'', target = ''/tmp/x.txt'', content = Some ''abc''\<rparr>
                  demo_world)) demo_backup_path = Some (File ''old'')
   \<and> fst (execute demo_host \<lparr>rtype = ''WRITE_FILE'', target = ''/tmp/x.txt'', content = Some ''xyz''\<rparr>
            (snd (execute demo_host \<lparr>rtype = ''WRITE_FILE'', target = ''/tmp/x.txt'', content = Some ''abc''\<rparr>
                    demo_world)))
     = Result True (''File written. Backup saved to: '' @ demo_backup_path)
   \<and> fs (snd (execute demo_host \<lparr>rtype = ''WRITE_FILE'', target = ''/tmp/x.txt'', content = Some ''xyz''\<rparr>
            (snd (execute demo_host \<lparr>rtype = ''WRITE_FILE'', target = ''/tmp/x.txt'', content = Some ''abc''\<rparr>
                    demo_world)))) demo_backup_path = Some (File ''abc'')
   \<and> ''/a/b'' \<noteq> ''/a__b''
   \<and> backupName ''/a/b'' demo_now = backupName ''/a__b'' demo_now"
proof -
  let ?r1 = "\<lparr>rtype = ''WRITE_FILE'', target = ''/tmp/x.txt'', content = Some ''abc''\<rparr>"
  let ?r2 = "\<lparr>rtype = ''WRITE_FILE'', target = ''/tmp/x.txt'', content = Some ''xyz''\<rparr>"
  have w0: "SAFE_WRITE_PATHS demo_world = [''/tmp/'']" "fs demo_world ''/tmp'' = Some Dir"
    "fs demo_world ''/tmp/x.txt'' = Some (File ''old'')"
    "fs demo_world ''/srv/middleclaw/.middleclaw-backups'' = None
       \<or> fs demo_world ''/srv/middleclaw/.middleclaw-backups'' = Some Dir"
    by (simp_all add: demo_world_def)
  from demo_write_steps [OF w0, of "''abc''"] obtain w1 where
    x1: "execute demo_host ?r1 demo_world = (Result True (''File written. Backup saved to: '' @ demo_backup_path), w1)"
    and b1: "fs w1 demo_backup_path = Some (File ''old'')"
    and w1: "SAFE_WRITE_PATHS w1 = [''/tmp/'']" "fs w1 ''/tmp'' = Some Dir"
      "fs w1 ''/tmp/x.txt'' = Some (File ''abc'')"
      "fs w1 ''/srv/middleclaw/.middleclaw-backups'' = Some Dir"
    by blast
  have w1': "fs w1 ''/srv/middleclaw/.middleclaw-backups'' = None
       \<or> fs w1 ''/srv/middleclaw/.middleclaw-backups'' = Some Dir"
    using w1(4) by simp
  from demo_write_steps [OF w1(1) w1(2) w1(3) w1', of "''xyz''"] obtain w2 where
    x2: "execute demo_host ?r2 w1 = (Result True (''File written. Backup saved to: '' @ demo_backup_path), w2)"
    and b2: "fs w2 demo_backup_path = Some (File ''abc'')"
    by blast
  have nm: "backupName ''/a/b'' demo_now = backupName ''/a__b'' demo_now"
    by (simp add: backupName_def replace_all_def)
  show ?thesis using b1 b2 nm by (simp add: x1 x2)
qed

subsection \<open>Delivery of outcomes\<close>

lemma endsWith_append [simp]: "endsWith (a @ p) p"
  by (simp add: endsWith_def)

lemma is_marker_names [simp]: "is_marker (a @ ''.txt'')" "is_marker (a @ ''.err'')"
  by (simp_all add: is_marker_def)

lemma marker_id_names [simp]: "marker_id (a @ ''.txt'') = a" "marker_id (a @ ''.err'') = a"
  by (simp_all add: marker_id_def)




lemma names_map_set:
  "map fst (map_set dir k v) = (if k \<in> set (map fst dir) then map fst dir else map fst dir @ [k])"
  by (induction dir) (auto simp: map_set_def split: prod.splits)








lemma delivered_pairs_append:
  "delivered_pairs (s\<lparr>sent := sent s @ xs\<rparr>) = delivered_pairs s @ map (\<lambda>(r, m). (r, actionId m)) xs"
  by (simp add: delivered_pairs_def)

lemma poll_file_clients [simp]: "clientConnections (poll_file fl cs f s) = clientConnections s"
  by (simp add: poll_file_def Let_def split: option.splits)



lemma foldl_inv_set:
  "(\<And>x s. x \<in> set xs \<Longrightarrow> P s \<Longrightarrow> P (f s x)) \<Longrightarrow> P s \<Longrightarrow> P (foldl f s xs)"
  by (induction xs arbitrary: s) auto






lemma marker_ids_map_set:
  "marker_ids (map_set dir k v) =
     (if k \<in> set (map fst dir) \<or> \<not> is_marker k then marker_ids dir else marker_ids dir @ [marker_id k])"
  by (simp add: marker_ids_def names_map_set)


lemma rewrite_marker_inv:
  assumes inv: "hub_inv U s" and k: "k \<in> set (map fst (actions_dir s))"
  shows "hub_inv U (s\<lparr>actions_dir := map_set (actions_dir s) k v\<rparr>)"
  using inv k unfolding hub_inv_def by (simp add: marker_ids_map_set delivered_pairs_def)




lemma run_Cons: "run (e # es) s = run es (step e s)"
  by (simp add: run_def)










lemma map_of_update_other:
  "k' \<noteq> k \<Longrightarrow> map_of (map (\<lambda>(k0, v0). if k0 = k then (k0, v) else (k0, v0)) m) k' = map_of m k'"
  by (induction m) (auto split: prod.splits)

lemma map_of_map_set_other: "k' \<noteq> k \<Longrightarrow> map_of (map_set m k v) k' = map_of m k'"
proof (cases "k \<in> set (map fst m)")
  case True
  assume "k' \<noteq> k"
  then show ?thesis using True map_of_update_other [of k' k v m] by (simp add: map_set_def)
next
  case False
  assume "k' \<noteq> k"
  then show ?thesis using False by (auto simp add: map_set_def map_add_def split: option.splits)
qed

lemma filter_update_other:
  "\<not> P k \<Longrightarrow> filter (\<lambda>(n, d). P n) (map (\<lambda>(k0, v0). if k0 = k then (k0, v) else (k0, v0)) dir)
     = filter (\<lambda>(n, d). P n) dir"
  by (induction dir) (auto split: prod.splits)

lemma filter_map_set_other:
  "\<not> P k \<Longrightarrow> filter (\<lambda>(n, d). P n) (map_set dir k v) = filter (\<lambda>(n, d). P n) dir"
  using filter_update_other [of P k v dir] by (simp add: map_set_def)

lemma filter_unlinkSync_other:
  "\<not> P k \<Longrightarrow> filter (\<lambda>(n, d). P n) (unlinkSync k dir) = filter (\<lambda>(n, d). P n) dir"
  by (induction dir) (auto simp: unlinkSync_def)

lemma markers_of_map_set_other:
  "marker_id k \<noteq> a \<Longrightarrow> markers_of a (map_set dir k v) = markers_of a dir"
  unfolding markers_of_def
  using filter_map_set_other [of "\<lambda>n. is_marker n \<and> marker_id n = a" k dir v] by simp

lemma markers_of_unlinkSync_other:
  "marker_id k \<noteq> a \<Longrightarrow> markers_of a (unlinkSync k dir) = markers_of a dir"
  unfolding markers_of_def
  using filter_unlinkSync_other [of "\<lambda>n. is_marker n \<and> marker_id n = a" k dir] by simp

lemma markers_of_try_unlinkSync_other:
  "marker_id k \<noteq> a \<Longrightarrow> markers_of a (try_unlinkSync fl k dir) = markers_of a dir"
  by (simp add: try_unlinkSync_def markers_of_unlinkSync_other)

lemma markers_of_unlinkSync: "markers_of a (unlinkSync k dir) = filter (\<lambda>(n, d). n \<noteq> k) (markers_of a dir)"
  by (induction dir) (auto simp add: markers_of_def unlinkSync_def)

lemma markers_of_try_unlinkSync_empty:
  "markers_of a dir = [] \<Longrightarrow> markers_of a (try_unlinkSync fl k dir) = []"
  by (simp add: try_unlinkSync_def markers_of_unlinkSync)

lemma try_readFileSync_in: "try_readFileSync fl f dir = Some d \<Longrightarrow> (f, d) \<in> set dir"
  by (auto simp add: try_readFileSync_def dest: map_of_SomeD split: if_splits)

lemma in_markers_of: "(f, d) \<in> set dir \<Longrightarrow> is_marker f \<Longrightarrow> (f, d) \<in> set (markers_of (marker_id f) dir)"
  by (simp add: markers_of_def)

lemma markers_of_in: "(f, d) \<in> set (markers_of a dir) \<Longrightarrow> is_marker f \<and> marker_id f = a \<and> (f, d) \<in> set dir"
  by (auto simp add: markers_of_def)

lemma map_of_markers:
  assumes "markers_of a dir = [(file, data)]"
  shows "map_of dir file = Some data"
proof -
  have p: "is_marker file \<and> marker_id file = a"
    using markers_of_in [of "file" data a dir] assms by simp
  show ?thesis
    using assms
  proof (induction dir)
    case Nil
    then show ?case by (simp add: markers_of_def)
  next
    case (Cons x dir)
    obtain n d where x: "x = (n, d)" by (cases x)
    show ?case
    proof (cases "n = file")
      case True
      then have "markers_of a (x # dir) = (n, d) # markers_of a dir"
        using p x by (simp add: markers_of_def)
      then have "d = data" using Cons.prems by simp
      then show ?thesis using x True by simp
    next
      case False
      have "\<not> (is_marker n \<and> marker_id n = a)"
      proof
        assume "is_marker n \<and> marker_id n = a"
        then have "markers_of a (x # dir) = (n, d) # markers_of a dir"
          using x by (simp add: markers_of_def)
        then show False using Cons.prems False by simp
      qed
      then have "markers_of a dir = [(file, data)]"
        using Cons.prems x by (auto simp add: markers_of_def split: if_splits)
      then show ?thesis using Cons.IH x False by simp
    qed
  qed
qed

lemma delivered_append:
  "delivered (s\<lparr>sent := sent s @ xs\<rparr>) a = delivered s a @ filter (\<lambda>(r, m). actionId m = a) xs"
  by (simp add: delivered_def)

text \<open>The poller and an action id that is not pending.\<close>

lemma poll_file_not_pending:
  assumes np: "map_of (pending s) a = None"
  shows "markers_of a (actions_dir (poll_file fl cs f s)) = markers_of a (actions_dir s)
         \<and> delivered (poll_file fl cs f s) a = delivered s a
         \<and> map_of (pending (poll_file fl cs f s)) a = None"
proof (cases "is_marker f \<and> (\<exists>action. map_of (pending s) (marker_id f) = Some action)
              \<and> (\<exists>result. try_readFileSync fl f (actions_dir s) = Some result)")
  case False
  then have "poll_file fl cs f s = s"
    by (auto simp add: poll_file_def is_marker_def Let_def split: option.splits)
  then show ?thesis using np by simp
next
  case True
  then obtain action result where m: "is_marker f"
    and p: "map_of (pending s) (marker_id f) = Some action"
    and r: "try_readFileSync fl f (actions_dir s) = Some result" by blast
  let ?b = "marker_id f"
  let ?dir = "try_unlinkSync fl (getActionErrorPath ?b) (try_unlinkSync fl (getActionOutputPath ?b) (actions_dir s))"
  let ?new = "map (\<lambda>(res, sessionId). (res, ActionComplete ?b (endsWith f ''.txt'') result))
                (filter (\<lambda>(res, sessionId). \<not> fl (Send res f)) cs)"
  have eq: "poll_file fl cs f s =
      s\<lparr>actions_dir := ?dir, pending := filter (\<lambda>(k, v). k \<noteq> ?b) (pending s), sent := sent s @ ?new\<rparr>"
    using m p r by (auto simp add: poll_file_def is_marker_def Let_def)
  have ne: "?b \<noteq> a" using p np by auto
  have n1: "marker_id (getActionOutputPath ?b) \<noteq> a" "marker_id (getActionErrorPath ?b) \<noteq> a"
    using ne by (simp_all add: getActionOutputPath_def getActionErrorPath_def)
  have f1: "markers_of a ?dir = markers_of a (actions_dir s)"
    using n1 by (simp add: markers_of_try_unlinkSync_other)
  have p1: "map_of (filter (\<lambda>(k, v). k \<noteq> ?b) (pending s)) a = None"
    using np by (simp add: map_of_eq_None_iff image_iff)
  have "filter (\<lambda>(r, m). actionId m = a) ?new = []"
    using ne by (auto simp add: filter_empty_conv)
  then have d1: "delivered (poll_file fl cs f s) a = delivered s a"
    unfolding eq by (simp add: delivered_def)
  show ?thesis using f1 p1 d1 unfolding eq by simp
qed

lemma pollCompletedActions_not_pending:
  assumes "map_of (pending s) a = None"
  shows "markers_of a (actions_dir (pollCompletedActions fl s)) = markers_of a (actions_dir s)
         \<and> delivered (pollCompletedActions fl s) a = delivered s a
         \<and> map_of (pending (pollCompletedActions fl s)) a = None"
proof -
  let ?P = "\<lambda>s'. markers_of a (actions_dir s') = markers_of a (actions_dir s)
         \<and> delivered s' a = delivered s a \<and> map_of (pending s') a = None"
  have "?P (foldl (\<lambda>s' file. poll_file fl (clientConnections s) file s') s (map fst (actions_dir s)))"
  proof (rule foldl_inv_set [where P = ?P])
    show "?P s" using assms by simp
  next
    fix x s'
    assume "?P s'"
    then show "?P (poll_file fl (clientConnections s) x s')"
      using poll_file_not_pending [of s' a fl "clientConnections s" x] by simp
  qed
  then show ?thesis by (simp add: pollCompletedActions_def)
qed

text \<open>The poller and an action id that has no marker.\<close>

lemma poll_file_no_marker:
  assumes nm: "markers_of a (actions_dir s) = []"
  shows "markers_of a (actions_dir (poll_file fl cs f s)) = []
         \<and> delivered (poll_file fl cs f s) a = delivered s a"
proof (cases "is_marker f \<and> (\<exists>action. map_of (pending s) (marker_id f) = Some action)
              \<and> (\<exists>result. try_readFileSync fl f (actions_dir s) = Some result)")
  case False
  then have "poll_file fl cs f s = s"
    by (auto simp add: poll_file_def is_marker_def Let_def split: option.splits)
  then show ?thesis using nm by simp
next
  case True
  then obtain action result where m: "is_marker f"
    and p: "map_of (pending s) (marker_id f) = Some action"
    and r: "try_readFileSync fl f (actions_dir s) = Some result" by blast
  let ?b = "marker_id f"
  let ?dir = "try_unlinkSync fl (getActionErrorPath ?b) (try_unlinkSync fl (getActionOutputPath ?b) (actions_dir s))"
  let ?new = "map (\<lambda>(res, sessionId). (res, ActionComplete ?b (endsWith f ''.txt'') result))
                (filter (\<lambda>(res, sessionId). \<not> fl (Send res f)) cs)"
  have eq: "poll_file fl cs f s =
      s\<lparr>actions_dir := ?dir, pending := filter (\<lambda>(k, v). k \<noteq> ?b) (pending s), sent := sent s @ ?new\<rparr>"
    using m p r by (auto simp add: poll_file_def is_marker_def Let_def)
  have "(f, result) \<in> set (markers_of ?b (actions_dir s))"
    using in_markers_of [OF try_readFileSync_in [OF r] m] .
  then have ne: "?b \<noteq> a" using nm by auto
  have f1: "markers_of a ?dir = []"
    using nm by (simp add: markers_of_try_unlinkSync_empty)
  have "filter (\<lambda>(r, m). actionId m = a) ?new = []"
    using ne by (auto simp add: filter_empty_conv)
  then have d1: "delivered (poll_file fl cs f s) a = delivered s a"
    unfolding eq by (simp add: delivered_def)
  show ?thesis using f1 d1 unfolding eq by simp
qed

lemma pollCompletedActions_no_marker:
  assumes "markers_of a (actions_dir s) = []"
  shows "markers_of a (actions_dir (pollCompletedActions fl s)) = []
         \<and> delivered (pollCompletedActions fl s) a = delivered s a"
proof -
  let ?P = "\<lambda>s'. markers_of a (actions_dir s') = [] \<and> delivered s' a = delivered s a"
  have "?P (foldl (\<lambda>s' file. poll_file fl (clientConnections s) file s') s (map fst (actions_dir s)))"
  proof (rule foldl_inv_set [where P = ?P])
    show "?P s" using assms by simp
  next
    fix x s'
    assume "?P s'"
    then show "?P (poll_file fl (clientConnections s) x s')"
      using poll_file_no_marker [of a s' fl "clientConnections s" x] by simp
  qed
  then show ?thesis by (simp add: pollCompletedActions_def)
qed

text \<open>The catch-up flush, file by file.\<close>

lemma flush_file_other:
  assumes M: "markers_of a (actions_dir s) = M" and g: "is_marker g" and n: "g \<notin> fst ` set M"
  shows "markers_of a (actions_dir (flush_file fl c g s)) = M
         \<and> delivered (flush_file fl c g s) a = delivered s a
         \<and> pending (flush_file fl c g s) = pending s"
proof (cases "\<exists>result. try_readFileSync fl g (actions_dir s) = Some result \<and> \<not> fl (Send c g)")
  case False
  then have "flush_file fl c g s = s"
    by (auto simp add: flush_file_def split: option.splits)
  then show ?thesis using M by simp
next
  case True
  then obtain result where r: "try_readFileSync fl g (actions_dir s) = Some result"
    and w: "\<not> fl (Send c g)" by blast
  have eq: "flush_file fl c g s =
      s\<lparr>sent := sent s @ [(c, ActionComplete (marker_id g) (endsWith g ''.txt'') result)],
        actions_dir := try_unlinkSync fl g (actions_dir s)\<rparr>"
    using r w by (simp add: flush_file_def)
  have "(g, result) \<in> set (markers_of (marker_id g) (actions_dir s))"
    using in_markers_of [OF try_readFileSync_in [OF r] g] .
  then have ne: "marker_id g \<noteq> a" using M n by force
  show ?thesis
    unfolding eq using ne M by (simp add: markers_of_try_unlinkSync_other delivered_def)
qed

lemma flush_file_orphan:
  assumes M: "markers_of a (actions_dir s) = [(file, data)]"
    and ok: "\<not> fl (ReadMarker file)" "\<not> fl (Send c file)" "\<not> fl (UnlinkMarker file)"
  shows "markers_of a (actions_dir (flush_file fl c file s)) = []
         \<and> delivered (flush_file fl c file s) a
              = delivered s a @ [(c, ActionComplete a (endsWith file ''.txt'') data)]
         \<and> pending (flush_file fl c file s) = pending s"
proof -
  have p: "is_marker file \<and> marker_id file = a"
    using markers_of_in [of "file" data a "actions_dir s"] M by simp
  have r: "try_readFileSync fl file (actions_dir s) = Some data"
    using map_of_markers [OF M] ok(1) by (simp add: try_readFileSync_def)
  have eq: "flush_file fl c file s =
      s\<lparr>sent := sent s @ [(c, ActionComplete a (endsWith file ''.txt'') data)],
        actions_dir := unlinkSync file (actions_dir s)\<rparr>"
    using r ok p by (simp add: flush_file_def try_unlinkSync_def)
  show ?thesis
    unfolding eq using M by (simp add: markers_of_unlinkSync delivered_def)
qed

lemma foldl_flush_other:
  assumes "markers_of a (actions_dir s) = M" and "\<And>g. g \<in> set gs \<Longrightarrow> is_marker g \<and> g \<notin> fst ` set M"
  shows "markers_of a (actions_dir (foldl (\<lambda>s' file. flush_file fl c file s') s gs)) = M
         \<and> delivered (foldl (\<lambda>s' file. flush_file fl c file s') s gs) a = delivered s a
         \<and> pending (foldl (\<lambda>s' file. flush_file fl c file s') s gs) = pending s"
proof -
  let ?P = "\<lambda>s'. markers_of a (actions_dir s') = M \<and> delivered s' a = delivered s a \<and> pending s' = pending s"
  have "?P (foldl (\<lambda>s' file. flush_file fl c file s') s gs)"
  proof (rule foldl_inv_set [where P = ?P])
    show "?P s" using assms(1) by simp
  next
    fix x s'
    assume x: "x \<in> set gs" and P: "?P s'"
    show "?P (flush_file fl c x s')"
      using flush_file_other [of a s' M x fl c] P assms(2) [OF x] by simp
  qed
  then show ?thesis .
qed

lemma connect_no_marker:
  assumes "markers_of a (actions_dir s) = []"
  shows "markers_of a (actions_dir (connect fl c sessionId s)) = []
         \<and> delivered (connect fl c sessionId s) a = delivered s a"
proof -
  let ?s1 = "s\<lparr>clientConnections := map_set (clientConnections s) c sessionId\<rparr>"
  have "markers_of a (actions_dir ?s1) = []" using assms by simp
  from foldl_flush_other [OF this, of "filter is_marker (map fst (actions_dir ?s1))" fl c]
  show ?thesis by (simp add: connect_def Let_def delivered_def)
qed

lemma connect_orphan:
  assumes o: "orphan s a file data"
    and ok: "\<not> fl (ReadMarker file)" "\<not> fl (Send c file)" "\<not> fl (UnlinkMarker file)"
  shows "markers_of a (actions_dir (connect fl c sessionId s)) = []
         \<and> delivered (connect fl c sessionId s) a
              = delivered s a @ [(c, ActionComplete a (endsWith file ''.txt'') data)]"
proof -
  let ?s1 = "s\<lparr>clientConnections := map_set (clientConnections s) c sessionId\<rparr>"
  let ?f = "\<lambda>s' file. flush_file fl c file s'"
  let ?names = "filter is_marker (map fst (actions_dir s))"
  have M: "markers_of a (actions_dir ?s1) = [(file, data)]"
    using o by (simp add: orphan_def)
  have p: "is_marker file \<and> marker_id file = a \<and> (file, data) \<in> set (actions_dir s)"
    using markers_of_in [of "file" data a "actions_dir s"] o by (simp add: orphan_def)
  then have "file \<in> set ?names" by force
  then obtain before after where sp: "?names = before @ file # after" and nb: "file \<notin> set before"
    using split_list_first by fast
  have mk: "\<And>g. g \<in> set before \<or> g \<in> set after \<Longrightarrow> is_marker g"
  proof -
    fix g
    assume "g \<in> set before \<or> g \<in> set after"
    then have "g \<in> set ?names" unfolding sp by auto
    then show "is_marker g" by simp
  qed
  let ?s2 = "foldl ?f ?s1 before"
  have b: "markers_of a (actions_dir ?s2) = [(file, data)] \<and> delivered ?s2 a = delivered ?s1 a"
    using foldl_flush_other [OF M, of before fl c] mk nb by auto
  let ?s3 = "flush_file fl c file ?s2"
  have c: "markers_of a (actions_dir ?s3) = []
      \<and> delivered ?s3 a = delivered ?s2 a @ [(c, ActionComplete a (endsWith file ''.txt'') data)]"
    using flush_file_orphan [of a ?s2 "file" data fl c] b ok by simp
  let ?s4 = "foldl ?f ?s3 after"
  have d: "markers_of a (actions_dir ?s4) = [] \<and> delivered ?s4 a = delivered ?s3 a"
    using foldl_flush_other [of a ?s3 "[]" after fl c] c mk by auto
  have e: "connect fl c sessionId s = ?s4"
    by (simp add: connect_def Let_def sp)
  have "delivered ?s1 a = delivered s a" by (simp add: delivered_def)
  then show ?thesis unfolding e using b c d by simp
qed

text \<open>Whole runs.\<close>

lemma run_append: "run (es @ es') s = run es' (run es s)"
  by (simp add: run_def)

lemma written_ids_Cons: "written_ids (e # es) = written_id e @ written_ids es"
  by (simp add: written_ids_def)

lemma registered_ids_Cons: "registered_ids (e # es) = registered_id e @ registered_ids es"
  by (simp add: registered_ids_def)

lemma step_keeps_orphan:
  assumes o: "orphan s a file data" and nc: "\<not> is_connect e"
    and nr: "a \<notin> set (registered_id e)" and nw: "a \<notin> set (written_id e)"
  shows "orphan (step e s) a file data \<and> delivered (step e s) a = delivered s a"
proof (cases e)
  case (Register b action)
  then show ?thesis
    using o nr by (simp add: orphan_def delivered_def map_of_map_set_other)
next
  case (Exited b error out err)
  then show ?thesis
    using o nw
    by (cases error)
      (simp_all add: orphan_def delivered_def exec_callback_def markers_of_map_set_other
        getActionOutputPath_def getActionErrorPath_def)
next
  case (ChildError b msg)
  then show ?thesis
    using o nw
    by (simp add: orphan_def delivered_def child_error_def markers_of_map_set_other getActionErrorPath_def)
next
  case (Poll fl)
  then show ?thesis
    using o pollCompletedActions_not_pending [of s a fl] by (simp add: orphan_def)
next
  case (Connect c sessionId fl)
  then show ?thesis using nc by simp
next
  case (Disconnect c)
  then show ?thesis using o by (simp add: orphan_def delivered_def disconnect_def)
qed

lemma run_keeps_orphan:
  "orphan s a file data \<Longrightarrow> \<not> list_ex is_connect es \<Longrightarrow> a \<notin> set (registered_ids es)
     \<Longrightarrow> a \<notin> set (written_ids es)
     \<Longrightarrow> orphan (run es s) a file data \<and> delivered (run es s) a = delivered s a"
proof (induction es arbitrary: s)
  case Nil
  then show ?case by (simp add: run_def)
next
  case (Cons e es)
  have s1: "orphan (step e s) a file data \<and> delivered (step e s) a = delivered s a"
    using Cons.prems by (intro step_keeps_orphan) (auto simp add: written_ids_Cons registered_ids_Cons)
  have "orphan (run es (step e s)) a file data \<and> delivered (run es (step e s)) a = delivered (step e s) a"
    using Cons.prems s1 by (intro Cons.IH) (auto simp add: written_ids_Cons registered_ids_Cons)
  then show ?case using s1 by (simp add: run_Cons)
qed

lemma step_no_marker:
  assumes nm: "markers_of a (actions_dir s) = []" and nw: "a \<notin> set (written_id e)"
  shows "markers_of a (actions_dir (step e s)) = [] \<and> delivered (step e s) a = delivered s a"
proof (cases e)
  case (Register b action)
  then show ?thesis using nm by (simp add: delivered_def)
next
  case (Exited b error out err)
  then show ?thesis
    using nm nw
    by (cases error)
      (simp_all add: delivered_def exec_callback_def markers_of_map_set_other
        getActionOutputPath_def getActionErrorPath_def)
next
  case (ChildError b msg)
  then show ?thesis
    using nm nw
    by (simp add: delivered_def child_error_def markers_of_map_set_other getActionErrorPath_def)
next
  case (Poll fl)
  then show ?thesis using pollCompletedActions_no_marker [OF nm, of fl] by simp
next
  case (Connect c sessionId fl)
  then show ?thesis using connect_no_marker [OF nm, of fl c sessionId] by simp
next
  case (Disconnect c)
  then show ?thesis using nm by (simp add: delivered_def disconnect_def)
qed

lemma run_no_marker:
  "markers_of a (actions_dir s) = [] \<Longrightarrow> a \<notin> set (written_ids es)
     \<Longrightarrow> markers_of a (actions_dir (run es s)) = [] \<and> delivered (run es s) a = delivered s a"
proof (induction es arbitrary: s)
  case Nil
  then show ?case by (simp add: run_def)
next
  case (Cons e es)
  have s1: "markers_of a (actions_dir (step e s)) = [] \<and> delivered (step e s) a = delivered s a"
    using Cons.prems by (intro step_no_marker) (auto simp add: written_ids_Cons)
  have "markers_of a (actions_dir (run es (step e s))) = []
      \<and> delivered (run es (step e s)) a = delivered (step e s) a"
    using Cons.prems s1 by (intro Cons.IH) (auto simp add: written_ids_Cons)
  then show ?case using s1 by (simp add: run_Cons)
qed

lemma orphan_delivered_once:
  assumes o: "orphan s a file data"
    and nc: "\<not> list_ex is_connect pre" and nr: "a \<notin> set (registered_ids pre)"
    and nw: "a \<notin> set (written_ids (pre @ Connect c sessionId fl # post))"
    and ok: "\<not> fl (ReadMarker file)" "\<not> fl (Send c file)" "\<not> fl (UnlinkMarker file)"
  shows "delivered (run (pre @ Connect c sessionId fl # post) s) a
           = delivered s a @ [(c, ActionComplete a (endsWith file ''.txt'') data)]"
proof -
  have w: "a \<notin> set (written_ids pre)" "a \<notin> set (written_ids post)"
    using nw by (simp_all add: written_ids_def)
  let ?s1 = "run pre s"
  have p1: "orphan ?s1 a file data \<and> delivered ?s1 a = delivered s a"
    using run_keeps_orphan [OF o nc nr w(1)] .
  let ?s2 = "connect fl c sessionId ?s1"
  have p2: "markers_of a (actions_dir ?s2) = []
      \<and> delivered ?s2 a = delivered ?s1 a @ [(c, ActionComplete a (endsWith file ''.txt'') data)]"
    using connect_orphan [of ?s1 a "file" data fl c sessionId] p1 ok by simp
  have p3: "delivered (run post ?s2) a = delivered ?s2 a"
    using run_no_marker [of a ?s2 post] p2 w(2) by simp
  have "run (pre @ Connect c sessionId fl # post) s = run post ?s2"
    by (simp add: run_append run_Cons)
  then show ?thesis using p1 p2 p3 by simp
qed

text \<open>What a tick of the poller delivers and removes.\<close>

lemma unlinkSync_keeps: "(f, d) \<in> set dir \<Longrightarrow> f \<noteq> k \<Longrightarrow> (f, d) \<in> set (unlinkSync k dir)"
  by (simp add: unlinkSync_def)

lemma try_unlinkSync_keeps: "(f, d) \<in> set dir \<Longrightarrow> f \<noteq> k \<Longrightarrow> (f, d) \<in> set (try_unlinkSync fl k dir)"
  by (simp add: try_unlinkSync_def unlinkSync_keeps)

lemma map_of_keys: "map_of m k = Some v \<Longrightarrow> k \<in> fst ` set m"
  by (metis map_of_eq_None_iff option.distinct(1))

lemma poll_file_only_pending:
  assumes keys: "fst ` set (pending s') \<subseteq> K"
  shows "(\<exists>xs. sent (poll_file fl cs f s') = sent s' @ xs \<and> (\<forall>(r, m)\<in>set xs. actionId m \<in> K))
         \<and> fst ` set (pending (poll_file fl cs f s')) \<subseteq> K
         \<and> (\<forall>(g, d)\<in>set (actions_dir s'). marker_id g \<notin> K \<longrightarrow> (g, d) \<in> set (actions_dir (poll_file fl cs f s')))"
proof (cases "is_marker f \<and> (\<exists>action. map_of (pending s') (marker_id f) = Some action)
              \<and> (\<exists>result. try_readFileSync fl f (actions_dir s') = Some result)")
  case False
  then have "poll_file fl cs f s' = s'"
    by (auto simp add: poll_file_def is_marker_def Let_def split: option.splits)
  then show ?thesis using keys by auto
next
  case True
  then obtain action result where m: "is_marker f"
    and p: "map_of (pending s') (marker_id f) = Some action"
    and r: "try_readFileSync fl f (actions_dir s') = Some result" by blast
  let ?b = "marker_id f"
  let ?dir = "try_unlinkSync fl (getActionErrorPath ?b) (try_unlinkSync fl (getActionOutputPath ?b) (actions_dir s'))"
  let ?new = "map (\<lambda>(res, sessionId). (res, ActionComplete ?b (endsWith f ''.txt'') result))
                (filter (\<lambda>(res, sessionId). \<not> fl (Send res f)) cs)"
  have eq: "poll_file fl cs f s' =
      s'\<lparr>actions_dir := ?dir, pending := filter (\<lambda>(k, v). k \<noteq> ?b) (pending s'), sent := sent s' @ ?new\<rparr>"
    using m p r by (auto simp add: poll_file_def is_marker_def Let_def)
  have bK: "?b \<in> K" using map_of_keys [OF p] keys by auto
  have a: "\<forall>(r, m)\<in>set ?new. actionId m \<in> K" using bK by auto
  have b: "fst ` set (filter (\<lambda>(k, v). k \<noteq> ?b) (pending s')) \<subseteq> K" using keys by auto
  have c: "\<forall>(g, d)\<in>set (actions_dir s'). marker_id g \<notin> K \<longrightarrow> (g, d) \<in> set ?dir"
  proof (intro ballI, clarify)
    fix g d
    assume gd: "(g, d) \<in> set (actions_dir s')" and n: "marker_id g \<notin> K"
    have "g \<noteq> getActionOutputPath ?b" "g \<noteq> getActionErrorPath ?b"
      using n bK by (auto simp add: getActionOutputPath_def getActionErrorPath_def)
    then show "(g, d) \<in> set ?dir" using gd by (simp add: try_unlinkSync_keeps)
  qed
  show ?thesis unfolding eq using a b c by simp
qed

lemma pollCompletedActions_only_pending:
  "(\<exists>xs. sent (pollCompletedActions fl s) = sent s @ xs
        \<and> (\<forall>(r, m)\<in>set xs. map_of (pending s) (actionId m) \<noteq> None))
   \<and> (\<forall>(g, d)\<in>set (actions_dir s).
         map_of (pending s) (marker_id g) = None \<longrightarrow> (g, d) \<in> set (actions_dir (pollCompletedActions fl s)))"
proof -
  let ?K = "fst ` set (pending s)"
  let ?P = "\<lambda>s'. (\<exists>xs. sent s' = sent s @ xs \<and> (\<forall>(r, m)\<in>set xs. actionId m \<in> ?K))
         \<and> fst ` set (pending s') \<subseteq> ?K
         \<and> (\<forall>(g, d)\<in>set (actions_dir s). marker_id g \<notin> ?K \<longrightarrow> (g, d) \<in> set (actions_dir s'))"
  have "?P (foldl (\<lambda>s' file. poll_file fl (clientConnections s) file s') s (map fst (actions_dir s)))"
  proof (rule foldl_inv_set [where P = ?P])
    show "?P s" by auto
  next
    fix x and s' :: hub
    assume P: "?P s'"
    then obtain xs where xs: "sent s' = sent s @ xs" "\<forall>(r, m)\<in>set xs. actionId m \<in> ?K"
      and k: "fst ` set (pending s') \<subseteq> ?K"
      and d: "\<forall>(g, d)\<in>set (actions_dir s). marker_id g \<notin> ?K \<longrightarrow> (g, d) \<in> set (actions_dir s')"
      by blast
    let ?s2 = "poll_file fl (clientConnections s) x s'"
    from poll_file_only_pending [OF k, of fl "clientConnections s" x]
    obtain ys where ys: "sent ?s2 = sent s' @ ys" "\<forall>(r, m)\<in>set ys. actionId m \<in> ?K"
      and k2: "fst ` set (pending ?s2) \<subseteq> ?K"
      and d2: "\<forall>(g, d)\<in>set (actions_dir s'). marker_id g \<notin> ?K \<longrightarrow> (g, d) \<in> set (actions_dir ?s2)"
      by blast
    have "sent ?s2 = sent s @ (xs @ ys)" using xs ys by simp
    moreover have "\<forall>(r, m)\<in>set (xs @ ys). actionId m \<in> ?K" using xs ys by auto
    ultimately have 1: "\<exists>zs. sent ?s2 = sent s @ zs \<and> (\<forall>(r, m)\<in>set zs. actionId m \<in> ?K)" by blast
    have 3: "\<forall>(g, d)\<in>set (actions_dir s). marker_id g \<notin> ?K \<longrightarrow> (g, d) \<in> set (actions_dir ?s2)"
      using d d2 by blast
    show "?P ?s2" using 1 k2 3 by blast
  qed
  then show ?thesis
    unfolding pollCompletedActions_def by (simp add: map_of_eq_None_iff)
qed

text \<open>What the catch-up flush sends and removes.\<close>

lemma unlinkSync_absent: "f \<notin> fst ` set dir \<Longrightarrow> unlinkSync f dir = dir"
  by (induction dir) (auto simp add: unlinkSync_def)

lemma unlinkSync_middle:
  "f \<notin> fst ` set kept \<Longrightarrow> f \<notin> fst ` set rest \<Longrightarrow> unlinkSync f (kept @ (f, d) # rest) = kept @ rest"
  using unlinkSync_absent [of f kept] unlinkSync_absent [of f rest]
  by (simp add: unlinkSync_def)

lemma map_of_middle: "f \<notin> fst ` set kept \<Longrightarrow> map_of (kept @ (f, d) # rest) f = Some d"
  by (induction kept) auto

lemma foldl_flush_file:
  assumes "distinct (map fst (kept @ todo))" and "actions_dir s = kept @ todo"
  shows "foldl (\<lambda>s' file. flush_file fl c file s') s (filter is_marker (map fst todo)) =
     s\<lparr>sent := sent s
          @ map (\<lambda>(f, data). (c, ActionComplete (marker_id f) (endsWith f ''.txt'') data))
              (filter (\<lambda>(f, data). is_marker f \<and> \<not> fl (ReadMarker f) \<and> \<not> fl (Send c f)) todo),
       actions_dir := kept
          @ filter (\<lambda>(f, data). \<not> (is_marker f \<and> \<not> fl (ReadMarker f) \<and> \<not> fl (Send c f)
                                    \<and> \<not> fl (UnlinkMarker f))) todo\<rparr>"
  using assms
proof (induction todo arbitrary: kept s)
  case Nil
  then show ?case by simp
next
  case (Cons x rest)
  obtain f d where x: "x = (f, d)" by (cases x)
  have nk: "f \<notin> fst ` set kept" and nr: "f \<notin> fst ` set rest"
    using Cons.prems(1) x by auto
  have d2: "distinct (map fst ((kept @ [x]) @ rest))" using Cons.prems(1) by simp
  have rd: "map_of (actions_dir s) f = Some d"
    using Cons.prems(2) x map_of_middle [OF nk] by simp
  show ?case
  proof (cases "is_marker f \<and> \<not> fl (ReadMarker f) \<and> \<not> fl (Send c f)")
    case False
    have same: "is_marker f \<Longrightarrow> flush_file fl c f s = s"
      using False rd by (auto simp add: flush_file_def try_readFileSync_def)
    have a: "actions_dir s = (kept @ [x]) @ rest" using Cons.prems(2) by simp
    have "foldl (\<lambda>s' file. flush_file fl c file s') s (filter is_marker (map fst (x # rest)))
        = foldl (\<lambda>s' file. flush_file fl c file s') s (filter is_marker (map fst rest))"
      using same x by simp
    also have "\<dots> = s\<lparr>sent := sent s
          @ map (\<lambda>(f, data). (c, ActionComplete (marker_id f) (endsWith f ''.txt'') data))
              (filter (\<lambda>(f, data). is_marker f \<and> \<not> fl (ReadMarker f) \<and> \<not> fl (Send c f)) rest),
       actions_dir := (kept @ [x])
          @ filter (\<lambda>(f, data). \<not> (is_marker f \<and> \<not> fl (ReadMarker f) \<and> \<not> fl (Send c f)
                                    \<and> \<not> fl (UnlinkMarker f))) rest\<rparr>"
      by (rule Cons.IH [OF d2 a])
    finally show ?thesis using False x by auto
  next
    case True
    let ?msg = "(c, ActionComplete (marker_id f) (endsWith f ''.txt'') d)"
    let ?s1 = "flush_file fl c f s"
    show ?thesis
    proof (cases "fl (UnlinkMarker f)")
      case stuck: True
      have s1: "?s1 = s\<lparr>sent := sent s @ [?msg]\<rparr>"
        using True rd stuck by (simp add: flush_file_def try_readFileSync_def try_unlinkSync_def)
      have a: "actions_dir ?s1 = (kept @ [x]) @ rest" using Cons.prems(2) s1 by simp
      have "foldl (\<lambda>s' file. flush_file fl c file s') s (filter is_marker (map fst (x # rest)))
          = foldl (\<lambda>s' file. flush_file fl c file s') ?s1 (filter is_marker (map fst rest))"
        using True x by simp
      also have "\<dots> = ?s1\<lparr>sent := sent ?s1
            @ map (\<lambda>(f, data). (c, ActionComplete (marker_id f) (endsWith f ''.txt'') data))
                (filter (\<lambda>(f, data). is_marker f \<and> \<not> fl (ReadMarker f) \<and> \<not> fl (Send c f)) rest),
         actions_dir := (kept @ [x])
            @ filter (\<lambda>(f, data). \<not> (is_marker f \<and> \<not> fl (ReadMarker f) \<and> \<not> fl (Send c f)
                                      \<and> \<not> fl (UnlinkMarker f))) rest\<rparr>"
        by (rule Cons.IH [OF d2 a])
      finally show ?thesis using True stuck x s1 by simp
    next
      case gone: False
      have s1: "?s1 = s\<lparr>sent := sent s @ [?msg], actions_dir := kept @ rest\<rparr>"
        using True rd gone Cons.prems(2) x unlinkSync_middle [OF nk nr]
        by (simp add: flush_file_def try_readFileSync_def try_unlinkSync_def)
      have d3: "distinct (map fst (kept @ rest))" using Cons.prems(1) by simp
      have a: "actions_dir ?s1 = kept @ rest" using s1 by simp
      have "foldl (\<lambda>s' file. flush_file fl c file s') s (filter is_marker (map fst (x # rest)))
          = foldl (\<lambda>s' file. flush_file fl c file s') ?s1 (filter is_marker (map fst rest))"
        using True x by simp
      also have "\<dots> = ?s1\<lparr>sent := sent ?s1
            @ map (\<lambda>(f, data). (c, ActionComplete (marker_id f) (endsWith f ''.txt'') data))
                (filter (\<lambda>(f, data). is_marker f \<and> \<not> fl (ReadMarker f) \<and> \<not> fl (Send c f)) rest),
         actions_dir := kept
            @ filter (\<lambda>(f, data). \<not> (is_marker f \<and> \<not> fl (ReadMarker f) \<and> \<not> fl (Send c f)
                                      \<and> \<not> fl (UnlinkMarker f))) rest\<rparr>"
        by (rule Cons.IH [OF d3 a])
      finally show ?thesis using True gone x s1 by simp
    qed
  qed
qed

lemma connect_flushes:
  assumes "distinct (map fst (actions_dir s))"
  shows "connect fl c sessionId s =
     s\<lparr>clientConnections := map_set (clientConnections s) c sessionId,
       sent := sent s
          @ map (\<lambda>(f, data). (c, ActionComplete (marker_id f) (endsWith f ''.txt'') data))
              (filter (\<lambda>(f, data). is_marker f \<and> \<not> fl (ReadMarker f) \<and> \<not> fl (Send c f)) (actions_dir s)),
       actions_dir :=
          filter (\<lambda>(f, data). \<not> (is_marker f \<and> \<not> fl (ReadMarker f) \<and> \<not> fl (Send c f)
                                    \<and> \<not> fl (UnlinkMarker f))) (actions_dir s)\<rparr>"
proof -
  let ?s1 = "s\<lparr>clientConnections := map_set (clientConnections s) c sessionId\<rparr>"
  have d: "distinct (map fst ([] @ actions_dir s))" using assms by simp
  have a: "actions_dir ?s1 = [] @ actions_dir s" by simp
  show ?thesis
    unfolding connect_def Let_def
    using foldl_flush_file [OF d a, of fl c] by simp
qed

text \<open>
  C10 (amended). A tick of the poller only adds to the events sent, and only events of action
  ids that have an entry in \<open>pendingActions\<close>; a file whose id has no entry is left in the
  directory. The catch-up flush of a connect does not look at \<open>pendingActions\<close>: it sends the new
  connection every marker of the directory that it can read and write to the connection, in the
  order of the directory, and removes each marker sent unless \<open>unlinkSync\<close> throws. So an
  orphaned marker, one whose id is not registered, neither before the connect nor later, and
  written only once, is delivered exactly once, by the flush of the first connect after it
  appears, if that flush can read it, write it to the connection and remove it; no tick of the
  poller and no later connect delivers it.
\<close>

theorem orphans_wait_for_a_client:
  "(let s' = pollCompletedActions fl s
    in (\<exists>xs. sent s' = sent s @ xs \<and> (\<forall>(r, m)\<in>set xs. map_of (pending s) (actionId m) \<noteq> None))
       \<and> (\<forall>(g, d)\<in>set (actions_dir s).
             map_of (pending s) (marker_id g) = None \<longrightarrow> (g, d) \<in> set (actions_dir s')))
   \<and> (distinct (map fst (actions_dir s)) \<longrightarrow>
        connect fl c sessionId s =
          s\<lparr>clientConnections := map_set (clientConnections s) c sessionId,
            sent := sent s
               @ map (\<lambda>(f, data). (c, ActionComplete (marker_id f) (endsWith f ''.txt'') data))
                   (filter (\<lambda>(f, data). is_marker f \<and> \<not> fl (ReadMarker f) \<and> \<not> fl (Send c f))
                      (actions_dir s)),
            actions_dir :=
               filter (\<lambda>(f, data). \<not> (is_marker f \<and> \<not> fl (ReadMarker f) \<and> \<not> fl (Send c f)
                                         \<and> \<not> fl (UnlinkMarker f))) (actions_dir s)\<rparr>)
   \<and> (orphan s a file data \<and> \<not> list_ex is_connect pre \<and> a \<notin> set (registered_ids pre)
        \<and> a \<notin> set (written_ids (pre @ Connect c sessionId fl # post))
        \<and> \<not> fl (ReadMarker file) \<and> \<not> fl (Send c file) \<and> \<not> fl (UnlinkMarker file) \<longrightarrow>
        delivered (run (pre @ Connect c sessionId fl # post) s) a
          = delivered s a @ [(c, ActionComplete a (endsWith file ''.txt'') data)])"
proof -
  have p1: "let s' = pollCompletedActions fl s
    in (\<exists>xs. sent s' = sent s @ xs \<and> (\<forall>(r, m)\<in>set xs. map_of (pending s) (actionId m) \<noteq> None))
       \<and> (\<forall>(g, d)\<in>set (actions_dir s).
             map_of (pending s) (marker_id g) = None \<longrightarrow> (g, d) \<in> set (actions_dir s'))"
    unfolding Let_def by (rule pollCompletedActions_only_pending)
  have p2: "distinct (map fst (actions_dir s)) \<longrightarrow>
        connect fl c sessionId s =
          s\<lparr>clientConnections := map_set (clientConnections s) c sessionId,
            sent := sent s
               @ map (\<lambda>(f, data). (c, ActionComplete (marker_id f) (endsWith f ''.txt'') data))
                   (filter (\<lambda>(f, data). is_marker f \<and> \<not> fl (ReadMarker f) \<and> \<not> fl (Send c f))
                      (actions_dir s)),
            actions_dir :=
               filter (\<lambda>(f, data). \<not> (is_marker f \<and> \<not> fl (ReadMarker f) \<and> \<not> fl (Send c f)
                                         \<and> \<not> fl (UnlinkMarker f))) (actions_dir s)\<rparr>"
    using connect_flushes [of s fl c sessionId] by blast
  have p3: "orphan s a file data \<and> \<not> list_ex is_connect pre \<and> a \<notin> set (registered_ids pre)
        \<and> a \<notin> set (written_ids (pre @ Connect c sessionId fl # post))
        \<and> \<not> fl (ReadMarker file) \<and> \<not> fl (Send c file) \<and> \<not> fl (UnlinkMarker file) \<longrightarrow>
        delivered (run (pre @ Connect c sessionId fl # post) s) a
          = delivered s a @ [(c, ActionComplete a (endsWith file ''.txt'') data)]"
    using orphan_delivered_once [of s a "file" data pre c sessionId fl post] by blast
  show ?thesis
    by (intro conjI) (fact p1, fact p2, fact p3)
qed


theorem orphans_wait_for_a_client_witness:
  "orphan (hub_start demo_dir) ''act_1_old'' ''act_1_old.err'' ''boom''
   \<and> delivered (run demo_trace (hub_start demo_dir)) ''act_1_old''
       = [(1, ActionComplete ''act_1_old'' False ''boom'')]
   \<and> distinct (map fst (actions_dir (hub_start demo_dir)))
   \<and> sent (connect no_fault 1 ''s1'' (hub_start demo_dir)) = [(1, ActionComplete ''act_1_old'' False ''boom'')]
   \<and> actions_dir (connect no_fault 1 ''s1'' (hub_start demo_dir)) = [(''README'', ''markers'')]
   \<and> (''act_1_old.err'', ''boom'') \<in> set (actions_dir (pollCompletedActions no_fault (hub_start demo_dir)))"
proof -
  let ?s = "hub_start demo_dir"
  let ?post = "[Register ''act_2_new'' demo_action, Connect 2 ''s2'' no_fault,
      Exited ''act_2_new'' None ''out'' [], Poll no_fault, Disconnect 1, Poll no_fault,
      Connect 3 ''s3'' no_fault]"
  note inst = orphans_wait_for_a_client
    [of no_fault ?s 1 "''s1''" "''act_1_old''" "''act_1_old.err''" "''boom''" "[Poll no_fault]" ?post]
  have tr: "demo_trace = [Poll no_fault] @ Connect 1 ''s1'' no_fault # ?post"
    by (simp add: demo_trace_def)
  have o: "orphan ?s ''act_1_old'' ''act_1_old.err'' ''boom''"
    by code_simp
  have dd: "distinct (map fst (actions_dir ?s))"
    by (simp add: hub_start_def demo_dir_def)
  have h: "\<not> list_ex is_connect [Poll no_fault]" "''act_1_old'' \<notin> set (registered_ids [Poll no_fault])"
    "''act_1_old'' \<notin> set (written_ids ([Poll no_fault] @ Connect 1 ''s1'' no_fault # ?post))"
    "\<not> no_fault (ReadMarker ''act_1_old.err'')" "\<not> no_fault (Send 1 ''act_1_old.err'')"
    "\<not> no_fault (UnlinkMarker ''act_1_old.err'')"
    by (simp_all add: registered_ids_def written_ids_def no_fault_def)
  have ew: "endsWith ''act_1_old.err'' ''.txt'' = False"
    by (simp add: endsWith_def)
  have d0: "delivered ?s ''act_1_old'' = []"
    by (simp add: delivered_def hub_start_def)
  have a: "delivered (run demo_trace ?s) ''act_1_old'' = [(1, ActionComplete ''act_1_old'' False ''boom'')]"
    using inst o h unfolding tr by (simp add: ew d0)
  have c: "connect no_fault 1 ''s1'' ?s =
          ?s\<lparr>clientConnections := map_set (clientConnections ?s) 1 ''s1'',
            sent := sent ?s
               @ map (\<lambda>(f, data). (1, ActionComplete (marker_id f) (endsWith f ''.txt'') data))
                   (filter (\<lambda>(f, data). is_marker f \<and> \<not> no_fault (ReadMarker f) \<and> \<not> no_fault (Send 1 f))
                      (actions_dir ?s)),
            actions_dir :=
               filter (\<lambda>(f, data). \<not> (is_marker f \<and> \<not> no_fault (ReadMarker f) \<and> \<not> no_fault (Send 1 f)
                                         \<and> \<not> no_fault (UnlinkMarker f))) (actions_dir ?s)\<rparr>"
    using inst dd by blast
  have m: "is_marker ''act_1_old.err''" "\<not> is_marker ''README''" "marker_id ''act_1_old.err'' = ''act_1_old''"
    by (simp_all add: is_marker_def marker_id_def endsWith_def)
  have b1: "sent (connect no_fault 1 ''s1'' ?s) = [(1, ActionComplete ''act_1_old'' False ''boom'')]"
    unfolding c by (simp add: hub_start_def demo_dir_def m ew no_fault_def)
  have b2: "actions_dir (connect no_fault 1 ''s1'' ?s) = [(''README'', ''markers'')]"
    unfolding c by (simp add: hub_start_def demo_dir_def m no_fault_def)
  have np: "map_of (pending ?s) (marker_id ''act_1_old.err'') = None"
    by (simp add: hub_start_def)
  have mem: "(''act_1_old.err'', ''boom'') \<in> set (actions_dir ?s)"
    by (simp add: hub_start_def demo_dir_def)
  have p: "(''act_1_old.err'', ''boom'') \<in> set (actions_dir (pollCompletedActions no_fault ?s))"
    using inst np mem unfolding Let_def by blast
  show ?thesis using o a dd b1 b2 p by simp
qed


text \<open>
  Without the condition on the first connect the orphaned outcome is not delivered exactly once:
  when the marker cannot be removed, the next client to connect is sent it as well.
\<close>

theorem stuck_orphan_sent_twice:
  "orphan (hub_start demo_dir) ''act_1_old'' ''act_1_old.err'' ''boom''
   \<and> delivered (run orphan_trace (hub_start demo_dir)) ''act_1_old''
       = [(1, ActionComplete ''act_1_old'' False ''boom''), (2, ActionComplete ''act_1_old'' False ''boom'')]"
  by code_simp


end
